(* ===== verification/Prelude.thy ===== *)
theory Prelude
  imports Main "HOL-Library.Word" "HOL-Library.Char_ord" "HOL-Library.List_Lexorder"
    "HOL-Library.AList"
begin

text \<open>
  Shared vocabulary of the pyvcs model: bytes as lists of 8-bit words, Python's
  exceptions as a datatype, and the Python built-ins the sources call
  (\<open>str.encode\<close>/\<open>bytes.decode\<close>, \<open>bytes.split\<close>, \<open>bytes.hex\<close>/\<open>bytes.fromhex\<close>,
  \<open>str(n)\<close>, \<open>f"{n:o}"\<close>, \<open>int(s)\<close>, \<open>struct.pack\<close> of big-endian \<open>I\<close> and \<open>h\<close>
  fields, \<open>rstrip\<close>, \<open>lstrip\<close>) as executable HOL functions, with the round-trip
  lemmas the component theories share.  Text is modelled as byte strings: an
  Isabelle \<^typ>\<open>char\<close> is one byte, so \<open>encode\<close>/\<open>decode\<close> are the identity
  on code points below 256 and UTF-8 validation is not modelled.
\<close>

named_theorems py_simps "evaluation rules of the modelled Python built-ins"

type_synonym byte = "8 word"
type_synonym bytes = "byte list"

datatype py_error =
    PyException string
  | IndexError
  | ValueError
  | StructError
  | KeyError
  | AttributeError
  | FileNotFoundError
  | IsADirectoryError
  | FileExistsError
  | ZeroDivisionError
  | UnboundLocalError
  | TypeError
  | NotADirectoryError

type_synonym 'a result = "py_error + 'a"

subsection \<open>Text and bytes\<close>

definition encode :: "string \<Rightarrow> bytes" where
  "encode s = map (\<lambda>c. word_of_nat (of_char c)) s"

definition decode :: "bytes \<Rightarrow> string" where
  "decode bs = map (\<lambda>b. char_of (unat b)) bs"

lemma unat_byte_less [simp]: "unat (b :: byte) < 256"
  using unsigned_less [of b, where ?'a = nat] by simp

lemma unat_byte_mod [simp]: "unat (b :: byte) mod 256 = unat b"
  by simp

lemma decode_encode [simp]: "decode (encode s) = s"
  by (induction s) (simp_all add: encode_def decode_def unat_of_nat)

lemma encode_decode [simp]: "encode (decode bs) = bs"
  by (induction bs) (simp_all add: encode_def decode_def)

lemma length_encode [simp]: "length (encode s) = length s"
  by (simp add: encode_def)

lemma encode_append [simp]: "encode (s @ t) = encode s @ encode t"
  by (simp add: encode_def)

lemma decode_append [simp]: "decode (s @ t) = decode s @ decode t"
  by (simp add: decode_def)

lemma encode_Cons [simp]: "encode (c # s) = word_of_nat (of_char c) # encode s"
  by (simp add: encode_def)

lemma encode_Nil [simp]: "encode [] = []"
  by (simp add: encode_def)

lemma encode_eq_byte_iff: "(word_of_nat (of_char c) :: byte) = word_of_nat (of_char d) \<longleftrightarrow> c = d"
  by (metis decode_encode encode_Cons encode_Nil list.inject)

lemma encode_mem_iff: "word_of_nat (of_char c) \<in> set (encode s) \<longleftrightarrow> c \<in> set s"
  by (induction s) (auto simp: encode_eq_byte_iff)

subsection \<open>Splitting and stripping\<close>

text \<open>\<open>xs.split(s)\<close> for a one-element separator: never empty.\<close>

fun py_split :: "'a \<Rightarrow> 'a list \<Rightarrow> 'a list list" where
  "py_split s [] = [[]]"
| "py_split s (x # xs) =
     (if x = s then [] # py_split s xs
      else (let r = py_split s xs in (x # hd r) # tl r))"

text \<open>\<open>s.join(xss)\<close> for a one-element separator.\<close>

fun py_join :: "'a \<Rightarrow> 'a list list \<Rightarrow> 'a list" where
  "py_join s [] = []"
| "py_join s [x] = x"
| "py_join s (x # xs) = x @ s # py_join s xs"

text \<open>\<open>xs.split(s, maxsplit=1)\<close> when it yields two parts; \<open>None\<close> when \<open>s\<close> is absent.\<close>

fun split_first :: "'a \<Rightarrow> 'a list \<Rightarrow> ('a list \<times> 'a list) option" where
  "split_first s [] = None"
| "split_first s (x # xs) =
     (if x = s then Some ([], xs) else map_option (\<lambda>(a, b). (x # a, b)) (split_first s xs))"

text \<open>\<open>xs.index(s)\<close>: \<open>None\<close> stands for the \<open>ValueError\<close> it raises.\<close>

definition index_of :: "'a \<Rightarrow> 'a list \<Rightarrow> nat option" where
  "index_of s xs = (if s \<in> set xs then Some (length (takeWhile (\<lambda>x. x \<noteq> s) xs)) else None)"

definition rstrip0 :: "bytes \<Rightarrow> bytes" where
  "rstrip0 bs = rev (dropWhile (\<lambda>b. b = 0) (rev bs))"

text \<open>\<open>s.lstrip(chars)\<close> removes a leading run of characters drawn from the set \<open>chars\<close>.\<close>

definition lstrip :: "string \<Rightarrow> string \<Rightarrow> string" where
  "lstrip cs s = dropWhile (\<lambda>c. c \<in> set cs) s"

text \<open>\<open>p in s\<close> for strings: substring test.\<close>

fun is_substr :: "'a list \<Rightarrow> 'a list \<Rightarrow> bool" where
  "is_substr p [] = (p = [])"
| "is_substr p (x # xs) = (take (length p) (x # xs) = p \<or> is_substr p xs)"

lemma py_split_not_Nil [simp]: "py_split s xs \<noteq> []"
  by (induction xs) (auto simp: Let_def)

lemma py_split_no_sep: "s \<notin> set xs \<Longrightarrow> py_split s xs = [xs]"
  by (induction xs) auto

lemma py_split_append_sep:
  "s \<notin> set xs \<Longrightarrow> py_split s (xs @ s # ys) = xs # py_split s ys"
  by (induction xs) (auto simp: Let_def)

lemma py_split_join:
  "xss \<noteq> [] \<Longrightarrow> (\<forall>xs \<in> set xss. s \<notin> set xs) \<Longrightarrow> py_split s (py_join s xss) = xss"
proof (induction s xss rule: py_join.induct)
  case (3 s x y zs)
  then show ?case by (simp add: py_split_append_sep)
qed (auto simp: py_split_no_sep)

lemma split_first_append:
  "s \<notin> set xs \<Longrightarrow> split_first s (xs @ s # ys) = Some (xs, ys)"
  by (induction xs) auto

lemma split_first_None: "split_first s xs = None \<longleftrightarrow> s \<notin> set xs"
  by (induction xs) auto

lemma index_of_append:
  "s \<notin> set xs \<Longrightarrow> index_of s (xs @ s # ys) = Some (length xs)"
  by (induction xs) (auto simp: index_of_def)

lemma takeWhile_append_sep:
  "s \<notin> set xs \<Longrightarrow> takeWhile (\<lambda>x. x \<noteq> s) (xs @ s # ys) = xs"
  by (induction xs) auto

lemma dropWhile_replicate_append [simp]:
  "P x \<Longrightarrow> dropWhile P (replicate n x @ ys) = dropWhile P ys"
  by (induction n) auto

lemma rstrip0_append_zeros:
  "(xs = [] \<or> last xs \<noteq> 0) \<Longrightarrow> rstrip0 (xs @ replicate n 0) = xs"
proof -
  assume h: "xs = [] \<or> last xs \<noteq> 0"
  have "dropWhile (\<lambda>b. b = 0) (rev (xs @ replicate n 0)) = rev xs"
    using h by (cases xs rule: rev_cases) auto
  then show ?thesis by (simp add: rstrip0_def)
qed

lemma is_substr_append_left: "is_substr p ys \<Longrightarrow> is_substr p (xs @ ys)"
  by (induction xs) auto

lemma is_substr_Nil [simp]: "is_substr [] ys"
  by (cases ys) auto

lemma is_substr_prefix: "is_substr p (p @ ys)"
  by (cases p) auto

subsection \<open>Numerals: \<open>str(n)\<close>, \<open>f"{n:o}"\<close>, \<open>int(s)\<close>\<close>

definition digit_char :: "nat \<Rightarrow> char" where
  "digit_char d = char_of (if d < 10 then 48 + d else 87 + d)"

function show_base :: "nat \<Rightarrow> nat \<Rightarrow> string" where
  "show_base b n =
     (if b < 2 \<or> n < b then [digit_char n] else show_base b (n div b) @ [digit_char (n mod b)])"
  by pat_completeness auto
termination
  by (relation "measure (\<lambda>(b, n). n)") auto

declare show_base.simps [simp del]

text \<open>Python's \<open>str(n)\<close> and \<open>format(n, "o")\<close> of an \<open>int\<close>.\<close>

definition py_str :: "int \<Rightarrow> string" where
  "py_str i = (if i < 0 then CHR ''-'' # show_base 10 (nat (- i)) else show_base 10 (nat i))"

definition py_oct :: "int \<Rightarrow> string" where
  "py_oct i = (if i < 0 then CHR ''-'' # show_base 8 (nat (- i)) else show_base 8 (nat i))"

definition dec_digit :: "char \<Rightarrow> nat option" where
  "dec_digit c = (let n = of_char c in if 48 \<le> n \<and> n \<le> 57 then Some (n - 48) else None)"

fun digits_acc :: "nat \<Rightarrow> string \<Rightarrow> nat option" where
  "digits_acc acc [] = Some acc"
| "digits_acc acc (c # cs) =
     (case dec_digit c of None \<Rightarrow> None | Some d \<Rightarrow> digits_acc (10 * acc + d) cs)"

text \<open>
  \<open>int(s)\<close> on a string: an optional sign and one or more decimal digits; \<open>None\<close>
  is the \<open>ValueError\<close>.  Surrounding whitespace and digit-group underscores, which
  Python also accepts, never occur in the strings the sources parse.
\<close>

definition parse_int :: "string \<Rightarrow> int option" where
  "parse_int s =
     (case s of
        [] \<Rightarrow> None
      | c # cs \<Rightarrow>
          if c = CHR ''-'' then (if cs = [] then None else map_option (\<lambda>n. - int n) (digits_acc 0 cs))
          else if c = CHR ''+'' then (if cs = [] then None else map_option int (digits_acc 0 cs))
          else map_option int (digits_acc 0 s))"

text \<open>The value of a digit string read in base ten (used where code reads octal text with \<open>int\<close>).\<close>

definition dec_value :: "string \<Rightarrow> nat" where
  "dec_value s = foldl (\<lambda>acc c. 10 * acc + (of_char c - 48)) 0 s"

lemma show_base_not_Nil [simp]: "show_base b n \<noteq> []"
  by (subst show_base.simps) simp

lemma show_base_step: "2 \<le> b \<Longrightarrow> b \<le> n \<Longrightarrow> show_base b n = show_base b (n div b) @ [digit_char (n mod b)]"
  by (subst show_base.simps) simp

lemma show_base_last: "n < b \<Longrightarrow> show_base b n = [digit_char n]"
  by (subst show_base.simps) simp

lemmas show_base_eval = show_base_step show_base_last digit_char_def char_of_def bit_simps

lemma digit_char_dec [simp]: "d < 10 \<Longrightarrow> dec_digit (digit_char d) = Some d"
  by (simp add: dec_digit_def digit_char_def)

lemma show_base_digits:
  "2 \<le> b \<Longrightarrow> b \<le> 10 \<Longrightarrow> c \<in> set (show_base b n) \<Longrightarrow> \<exists>d < b. c = digit_char d"
proof (induction b n rule: show_base.induct)
  case (1 b n)
  show ?case
  proof (cases "b < 2 \<or> n < b")
    case True
    with "1.prems" show ?thesis by (auto simp: show_base.simps [of b n])
  next
    case False
    have lt: "n mod b < b" using "1.prems"(1) by simp
    from False "1.prems"(3)
    have "c \<in> set (show_base b (n div b)) \<or> c = digit_char (n mod b)"
      by (auto simp: show_base.simps [of b n])
    then show ?thesis
    proof
      assume "c \<in> set (show_base b (n div b))"
      with False "1.prems"(1,2) show ?thesis by (rule "1.IH")
    next
      assume "c = digit_char (n mod b)"
      with lt show ?thesis by blast
    qed
  qed
qed

lemma digits_acc_append:
  "digits_acc acc (xs @ ys) = (case digits_acc acc xs of None \<Rightarrow> None | Some a \<Rightarrow> digits_acc a ys)"
  by (induction acc xs rule: digits_acc.induct) (auto split: option.splits)

lemma digits_acc_dec_value:
  "(\<forall>c \<in> set s. \<exists>d < 10. c = digit_char d) \<Longrightarrow> digits_acc acc s = Some (foldl (\<lambda>acc c. 10 * acc + (of_char c - 48)) acc s)"
proof (induction s arbitrary: acc)
  case (Cons c s)
  then obtain d where "d < 10" "c = digit_char d" by auto
  moreover have "of_char (digit_char d) - 48 = d" if "d < 10"
    using that by (simp add: digit_char_def)
  ultimately show ?case using Cons by simp
qed simp

lemma digit_char_not_sign:
  "d < 10 \<Longrightarrow> digit_char d \<noteq> CHR ''-'' \<and> digit_char d \<noteq> CHR ''+''"
proof -
  assume "d < 10"
  then have "of_char (digit_char d) = 48 + d" by (simp add: digit_char_def)
  with \<open>d < 10\<close> show ?thesis by auto
qed

text \<open>Reading back a base-8 or base-10 numeral with \<open>int\<close>: the digits are read in base ten.\<close>

lemma parse_int_show_base:
  assumes "2 \<le> b" "b \<le> 10"
  shows "parse_int (show_base b n) = Some (int (dec_value (show_base b n)))"
proof -
  have dig: "\<forall>c \<in> set (show_base b n). \<exists>d < 10. c = digit_char d"
  proof
    fix c assume "c \<in> set (show_base b n)"
    then obtain d where "d < b" "c = digit_char d" using show_base_digits [OF assms] by blast
    with assms(2) show "\<exists>d < 10. c = digit_char d" by (intro exI [of _ d]) auto
  qed
  then have v: "digits_acc 0 (show_base b n) = Some (dec_value (show_base b n))"
    by (simp add: digits_acc_dec_value dec_value_def)
  obtain c cs where cs: "show_base b n = c # cs"
    by (cases "show_base b n") auto
  with dig obtain d where "d < 10" "c = digit_char d" by auto
  then have "c \<noteq> CHR ''-'' \<and> c \<noteq> CHR ''+''" by (simp add: digit_char_not_sign)
  with v cs show ?thesis by (simp add: parse_int_def)
qed

lemma dec_value_show_base_10: "dec_value (show_base 10 n) = n"
proof (induction n rule: less_induct)
  case (less n)
  show ?case
  proof (cases "n < 10")
    case True
    then show ?thesis by (simp add: show_base.simps [of 10 n] dec_value_def digit_char_def)
  next
    case False
    then have "dec_value (show_base 10 n) = 10 * dec_value (show_base 10 (n div 10)) + n mod 10"
      by (simp add: show_base.simps [of 10 n] dec_value_def digit_char_def)
    with less False show ?thesis by simp
  qed
qed

lemma parse_int_py_str: "parse_int (py_str i) = Some i"
proof (cases "i < 0")
  case True
  have dig: "\<forall>c \<in> set (show_base 10 (nat (- i))). \<exists>d < 10. c = digit_char d"
    using show_base_digits [of 10] by fastforce
  then have "digits_acc 0 (show_base 10 (nat (- i))) = Some (nat (- i))"
    using dec_value_show_base_10 [of "nat (- i)"]
    by (simp add: digits_acc_dec_value dec_value_def)
  with True show ?thesis by (simp add: py_str_def parse_int_def)
next
  case False
  then show ?thesis
    using parse_int_show_base [of 10 "nat i"] dec_value_show_base_10 [of "nat i"]
    by (simp add: py_str_def)
qed

lemma py_str_chars:
  "c \<in> set (py_str i) \<Longrightarrow> c \<noteq> CHR 0x00 \<and> c \<noteq> CHR '' '' \<and> c \<noteq> CHR 0x0A"
proof -
  assume c: "c \<in> set (py_str i)"
  have "c = CHR ''-'' \<or> (\<exists>d < 10. c = digit_char d)"
  proof (cases "i < 0")
    case True
    with c show ?thesis using show_base_digits [of 10 c "nat (- i)"] by (auto simp: py_str_def)
  next
    case False
    with c show ?thesis using show_base_digits [of 10 c "nat i"] by (auto simp: py_str_def)
  qed
  then have "(45 :: nat) \<le> of_char c" by (auto simp: digit_char_def)
  then show ?thesis by auto
qed

lemma zero_in_encode: "(0 :: byte) \<in> set (encode s) \<longleftrightarrow> CHR 0x00 \<in> set s"
  using encode_mem_iff [of "CHR 0x00" s] by simp

lemma space_in_encode: "(32 :: byte) \<in> set (encode s) \<longleftrightarrow> CHR '' '' \<in> set s"
  using encode_mem_iff [of "CHR '' ''" s] by simp

lemma newline_in_encode: "(10 :: byte) \<in> set (encode s) \<longleftrightarrow> CHR 0x0A \<in> set s"
  using encode_mem_iff [of "CHR 0x0A" s] by simp

subsection \<open>Hexadecimal: \<open>bytes.hex()\<close>, \<open>hexdigest()\<close>, \<open>bytes.fromhex\<close>\<close>

definition hex :: "bytes \<Rightarrow> string" where
  "hex bs = concat (map (\<lambda>b. [digit_char (unat b div 16), digit_char (unat b mod 16)]) bs)"

definition hex_val :: "char \<Rightarrow> nat option" where
  "hex_val c =
     (let n = of_char c in
      if 48 \<le> n \<and> n \<le> 57 then Some (n - 48)
      else if 97 \<le> n \<and> n \<le> 102 then Some (n - 87)
      else if 65 \<le> n \<and> n \<le> 70 then Some (n - 55)
      else None)"

definition is_space :: "char \<Rightarrow> bool" where
  "is_space c \<longleftrightarrow> of_char c \<in> {9, 10, 11, 12, 13, 32 :: nat}"

text \<open>\<open>bytes.fromhex(s)\<close>: whitespace between byte pairs is skipped, anything else raises \<open>ValueError\<close>.\<close>

fun fromhex :: "string \<Rightarrow> bytes result" where
  "fromhex [] = Inr []"
| "fromhex (c # cs) =
     (if is_space c then fromhex cs
      else (case cs of
              [] \<Rightarrow> Inl ValueError
            | d # ds \<Rightarrow>
                (case (hex_val c, hex_val d) of
                   (Some x, Some y) \<Rightarrow> map_sum id (Cons (word_of_nat (16 * x + y))) (fromhex ds)
                 | _ \<Rightarrow> Inl ValueError)))"

lemma hex_val_digit_char [simp]: "d < 16 \<Longrightarrow> hex_val (digit_char d) = Some d"
  by (simp add: hex_val_def digit_char_def)

lemma digit_char_not_space [simp]: "d < 16 \<Longrightarrow> \<not> is_space (digit_char d)"
  by (simp add: is_space_def digit_char_def)

lemma hex_Nil [simp]: "hex [] = []"
  by (simp add: hex_def)

lemma hex_Cons [simp]:
  "hex (b # bs) = digit_char (unat b div 16) # digit_char (unat b mod 16) # hex bs"
  by (simp add: hex_def)

lemma length_hex [simp]: "length (hex bs) = 2 * length bs"
  by (induction bs) auto

lemma hex_append [simp]: "hex (xs @ ys) = hex xs @ hex ys"
  by (simp add: hex_def)

lemma byte_of_hex_pair: "(word_of_nat (16 * (unat b div 16) + unat b mod 16) :: byte) = b"
  by simp

theorem fromhex_hex [simp]: "fromhex (hex bs) = Inr bs"
proof (induction bs)
  case (Cons b bs)
  have "unat b div 16 < 16" using unat_byte_less [of b] by linarith
  with Cons show ?case by simp
qed simp

subsection \<open>Big-endian fields of \<open>struct\<close>\<close>

text \<open>\<open>be_bytes n v\<close>: the low \<open>n\<close> bytes of \<open>v\<close>, most significant first.\<close>

fun be_bytes :: "nat \<Rightarrow> int \<Rightarrow> bytes" where
  "be_bytes 0 v = []"
| "be_bytes (Suc n) v = be_bytes n (v div 256) @ [word_of_int v]"

definition be_val :: "bytes \<Rightarrow> int" where
  "be_val bs = foldl (\<lambda>acc b. 256 * acc + uint b) 0 bs"

lemma length_be_bytes [simp]: "length (be_bytes n v) = n"
  by (induction n arbitrary: v) auto

lemma be_val_snoc [simp]: "be_val (xs @ [b]) = 256 * be_val xs + uint b"
  by (simp add: be_val_def)

lemma be_val_Nil [simp]: "be_val [] = 0"
  by (simp add: be_val_def)

lemma be_val_be_bytes: "be_val (be_bytes n v) = v mod 256 ^ n"
proof (induction n arbitrary: v)
  case (Suc n)
  have "be_val (be_bytes (Suc n) v) = 256 * (v div 256 mod 256 ^ n) + v mod 256"
    by (simp add: Suc uint_word_of_int)
  also have "\<dots> = v mod (256 * 256 ^ n)"
    by (rule zmod_zmult2_eq [symmetric]) simp
  also have "\<dots> = v mod 256 ^ Suc n"
    by simp
  finally show ?case .
qed simp

lemma be_val_nonneg: "0 \<le> be_val bs"
  by (induction bs rule: rev_induct) auto

lemma be_val_less: "be_val bs < 256 ^ length bs"
proof (induction bs rule: rev_induct)
  case (snoc b bs)
  have "uint b < 256" using uint_lt2p [of b] by simp
  with snoc show ?case by simp
qed simp

text \<open>\<open>struct.pack("!I", v)\<close>: range-checked, else \<open>struct.error\<close>.\<close>

definition pack_I :: "int \<Rightarrow> bytes result" where
  "pack_I v = (if 0 \<le> v \<and> v < 2 ^ 32 then Inr (be_bytes 4 v) else Inl StructError)"

text \<open>\<open>struct.pack("!h", v)\<close>: a signed 16-bit field in two's complement.\<close>

definition pack_h :: "int \<Rightarrow> bytes result" where
  "pack_h v = (if - 32768 \<le> v \<and> v < 32768 then Inr (be_bytes 2 v) else Inl StructError)"

definition unpack_h :: "bytes \<Rightarrow> int" where
  "unpack_h bs = (let u = be_val bs in if 32768 \<le> u then u - 65536 else u)"

text \<open>\<open>struct.pack("Ns", b)\<close>: truncated or NUL-padded to exactly \<open>N\<close> bytes.\<close>

definition pack_s :: "nat \<Rightarrow> bytes \<Rightarrow> bytes" where
  "pack_s n bs = take n bs @ replicate (n - length bs) 0"

lemma length_pack_s [simp]: "length (pack_s n bs) = n"
  by (simp add: pack_s_def)

lemma pack_s_exact [simp]: "length bs = n \<Longrightarrow> pack_s n bs = bs"
  by (simp add: pack_s_def)

lemma be_val_be_bytes_4: "0 \<le> v \<Longrightarrow> v < 2 ^ 32 \<Longrightarrow> be_val (be_bytes 4 v) = v"
  by (simp only: be_val_be_bytes) simp

lemma unpack_h_be_bytes: "- 32768 \<le> v \<Longrightarrow> v < 32768 \<Longrightarrow> unpack_h (be_bytes 2 v) = v"
proof -
  assume lo: "- 32768 \<le> v" and hi: "v < 32768"
  show ?thesis
  proof (cases "v < 0")
    case True
    have "(v + 65536) mod 65536 = v + 65536" using lo True by (intro mod_pos_pos_trivial) simp_all
    then have "v mod 65536 = v + 65536" by simp
    with True lo show ?thesis by (simp only: unpack_h_def be_val_be_bytes Let_def) simp
  next
    case False
    with hi have "v mod 65536 = v" by simp
    with hi show ?thesis by (simp only: unpack_h_def be_val_be_bytes Let_def) simp
  qed
qed

subsection \<open>Association lists as directories\<close>

lemma set_update_subset: "set (AList.update k v al) \<subseteq> insert (k, v) (set al)"
  by (induction al) auto

lemma update_mem: "(k, v) \<in> set (AList.update k v al)"
  by (induction al) auto

lemma length_filter_key:
  "distinct (map fst xs) \<Longrightarrow>
     length (filter (\<lambda>x. fst x = k) xs) = (if k \<in> fst ` set xs then 1 else 0)"
proof (induction xs)
  case (Cons x xs)
  show ?case
  proof (cases "fst x = k")
    case True
    with Cons.prems have "k \<notin> fst ` set xs" by auto
    then have "filter (\<lambda>x. fst x = k) xs = []"
      by (auto simp: filter_empty_conv image_iff)
    with True show ?thesis by simp
  next
    case False
    with Cons show ?thesis by auto
  qed
qed simp

subsection \<open>Sequencing results\<close>

text \<open>A loop that raises at its first failing element.\<close>

fun seq_results :: "'a result list \<Rightarrow> 'a list result" where
  "seq_results [] = Inr []"
| "seq_results (Inl e # rs) = Inl e"
| "seq_results (Inr x # rs) = map_sum id (Cons x) (seq_results rs)"

lemma seq_results_map_Inr:
  "(\<forall>x \<in> set xs. f x = Inr (g x)) \<Longrightarrow> seq_results (map f xs) = Inr (map g xs)"
  by (induction xs) auto

lemma seq_results_total:
  "(\<forall>x \<in> set xs. \<exists>v. f x = Inr v) \<Longrightarrow> \<exists>vs. seq_results (map f xs) = Inr vs"
  by (induction xs) auto

lemma seq_results_first_error:
  "(\<forall>x \<in> set xs. f x = Inl e \<or> (\<exists>v. f x = Inr v)) \<Longrightarrow> (\<exists>x \<in> set xs. f x = Inl e) \<Longrightarrow>
     seq_results (map f xs) = Inl e"
  by (induction xs) fastforce+


lemma seq_results_Inl: "seq_results xs = Inl e \<Longrightarrow> Inl e \<in> set xs"
proof (induction xs rule: seq_results.induct)
  case (3 x rs)
  then show ?case by (cases "seq_results rs") auto
qed auto


subsection \<open>Whitespace: \<open>str.strip()\<close> and \<open>str.split()\<close>\<close>

text \<open>Python's whitespace among the Latin-1 characters.\<close>

definition py_isspace :: "char \<Rightarrow> bool" where
  "py_isspace c \<longleftrightarrow> of_char c \<in> {9, 10, 11, 12, 13, 28, 29, 30, 31, 32, 133, 160 :: nat}"

definition py_strip :: "string \<Rightarrow> string" where
  "py_strip s = rev (dropWhile py_isspace (rev (dropWhile py_isspace s)))"

fun split_when :: "('a \<Rightarrow> bool) \<Rightarrow> 'a list \<Rightarrow> 'a list list" where
  "split_when P [] = [[]]"
| "split_when P (x # xs) = (if P x then [] # split_when P xs else (let r = split_when P xs in (x # hd r) # tl r))"

text \<open>\<open>s.split()\<close>: the maximal runs of non-whitespace characters.\<close>

definition py_split_ws :: "string \<Rightarrow> string list" where
  "py_split_ws s = filter (\<lambda>w. w \<noteq> []) (split_when py_isspace s)"

lemma digit_not_space: "d < 10 \<Longrightarrow> \<not> py_isspace (digit_char d)"
  by (auto simp: py_isspace_def digit_char_def)

lemma py_strip_newline:
  assumes "\<forall>c \<in> set xs. \<not> py_isspace c"
  shows "py_strip (xs @ [CHR 0x0A]) = xs"
proof -
  have nl: "py_isspace (CHR 0x0A)" by (simp add: py_isspace_def)
  have "dropWhile py_isspace (xs @ [CHR 0x0A]) = (if xs = [] then [] else xs @ [CHR 0x0A])"
    using assms nl by (cases xs) simp_all
  moreover have "dropWhile py_isspace (rev xs) = rev xs" using assms by (cases "rev xs") auto
  ultimately show ?thesis using nl by (simp add: py_strip_def)
qed

subsection \<open>Python lists and exceptions\<close>

text \<open>
  \<open>xs[i]\<close> of a Python list: a negative index counts from the end, and an index
  outside \<open>-len(xs) .. len(xs) - 1\<close> raises \<open>IndexError\<close>.  \<open>rbind\<close> sequences
  two statements, the first of which may raise.
\<close>

definition py_index :: "'a list \<Rightarrow> int \<Rightarrow> 'a result" where
  "py_index xs i =
     (if 0 \<le> i \<and> i < int (length xs) then Inr (xs ! nat i)
      else if i < 0 \<and> - int (length xs) \<le> i then Inr (xs ! nat (int (length xs) + i))
      else Inl IndexError)"

definition rbind :: "'a result \<Rightarrow> ('a \<Rightarrow> 'b result) \<Rightarrow> 'b result" where
  "rbind m f = (case m of Inl e \<Rightarrow> Inl e | Inr x \<Rightarrow> f x)"

lemma rbind_Inr [simp]: "rbind (Inr x) f = f x"
  by (simp add: rbind_def)

lemma rbind_Inl [simp]: "rbind (Inl e) f = Inl e"
  by (simp add: rbind_def)

lemma py_index_nat [simp]: "i < length xs \<Longrightarrow> py_index xs (int i) = Inr (xs ! i)"
  by (simp add: py_index_def)

lemma py_index_Inr: "py_index xs i = Inr v \<Longrightarrow> - int (length xs) \<le> i \<and> i < int (length xs)"
  by (auto simp: py_index_def split: if_splits)

lemma py_index_high [simp]: "int (length xs) \<le> i \<Longrightarrow> py_index xs i = Inl IndexError"
  by (simp add: py_index_def)

end
