(* ===== verification/Objects.thy ===== *)
theory Objects
  imports Prelude
begin

text \<open>
  The object store of \<open>src/homework04/pyvcs/objects.py\<close>.  The directory
  \<open>.pyvcs/objects\<close> is an association list from the pair (two-character
  bucket, remaining file name) to the stored bytes, in the order the files were
  created (the order \<open>glob\<close> lists them in).  SHA-1 is the parameter
  \<open>sha1 :: sha1_fn\<close> (the raw digest, \<open>hashlib.sha1(x).digest()\<close>); nothing
  is assumed of it.  zlib compression is the identity here: \<open>zlib.decompress\<close>
  inverts \<open>zlib.compress\<close>, and the code never handles a zlib error.
\<close>

type_synonym sha1_fn = "bytes \<Rightarrow> bytes"
type_synonym obj_store = "((string \<times> string) \<times> bytes) list"

subsection \<open>Writing: \<open>hash_object\<close>\<close>

definition frame :: "string \<Rightarrow> bytes \<Rightarrow> bytes" where
  "frame fmt data = encode (fmt @ '' '' @ py_str (int (length data))) @ 0 # data"

definition obj_key :: "string \<Rightarrow> string \<times> string" where
  "obj_key sha = (take 2 sha, drop 2 sha)"

definition hash_object ::
  "sha1_fn \<Rightarrow> bytes \<Rightarrow> string \<Rightarrow> bool \<Rightarrow> obj_store \<Rightarrow> obj_store \<times> string" where
  "hash_object sha1 data fmt write st =
     (let sha = hex (sha1 (frame fmt data))
      in (if write then AList.update (obj_key sha) (frame fmt data) st else st, sha))"

subsection \<open>Reading: \<open>read_object\<close>, \<open>resolve_object\<close>, \<open>find_object\<close>\<close>

text \<open>
  The type is the text before the first space of the text before the first NUL;
  the content is everything after the first NUL (\<open>IndexError\<close> without one).
  The declared length is not checked.  A missing file is \<open>FileNotFoundError\<close>.
\<close>

definition read_object :: "string \<Rightarrow> obj_store \<Rightarrow> (string \<times> bytes) result" where
  "read_object sha st =
     (case map_of st (obj_key sha) of
        None \<Rightarrow> Inl FileNotFoundError
      | Some data \<Rightarrow>
          (case split_first 0 data of
             None \<Rightarrow> Inl IndexError
           | Some (_, content) \<Rightarrow> Inr (decode (hd (py_split 32 (hd (py_split 0 data)))), content)))"

definition not_valid_name :: "string \<Rightarrow> py_error" where
  "not_valid_name obj_name = PyException (''Not a valid object name '' @ obj_name)"

definition resolve_object :: "string \<Rightarrow> obj_store \<Rightarrow> string list result" where
  "resolve_object obj_name st =
     (if 4 > length obj_name \<or> length obj_name > 40 then Inl (not_valid_name obj_name)
      else
        (let objectlist =
               map (\<lambda>((d, f), c). d @ f)
                 (filter (\<lambda>((d, f), c). d = take 2 obj_name \<and> obj_name = take (length obj_name) (d @ f)) st)
         in if objectlist = [] then Inl (not_valid_name obj_name) else Inr objectlist))"

text \<open>
  \<open>find_object\<close> tests whether \<open>objects/<obj_name>\<close> exists: the objects
  directory itself (empty name), a bucket directory, or \<open>bucket/file\<close>.
\<close>

definition find_object :: "string \<Rightarrow> obj_store \<Rightarrow> string result" where
  "find_object obj_name st =
     (if obj_name = [] \<or> list_ex (\<lambda>((d, f), c). obj_name = d \<or> obj_name = d @ ''/'' @ f) st
      then Inr (''objects/'' @ obj_name)
      else Inl (PyException (''Object '' @ obj_name @ '' does not exist'')))"

subsection \<open>Tree payloads: \<open>read_tree\<close>\<close>

text \<open>
  One entry per iteration of the \<open>while data\<close> loop: the text up to the first
  NUL must split on spaces into exactly two words (else \<open>ValueError\<close> from the
  tuple assignment), the mode word is read with \<open>int\<close> (base ten), and the next
  twenty bytes, or fewer at the end of the payload, are the digest.
\<close>

function read_tree :: "bytes \<Rightarrow> (int \<times> string \<times> string) list result" where
  "read_tree data =
     (if data = [] then Inr []
      else
        (case index_of 0 data of
           None \<Rightarrow> Inl ValueError
         | Some start_sha \<Rightarrow>
             (case py_split 32 (take start_sha data) of
                [mode_b, name_b] \<Rightarrow>
                  (case parse_int (decode mode_b) of
                     None \<Rightarrow> Inl ValueError
                   | Some mode \<Rightarrow>
                       map_sum id (Cons (mode, decode name_b, hex (take 20 (drop (start_sha + 1) data))))
                         (read_tree (drop (start_sha + 21) data)))
              | _ \<Rightarrow> Inl ValueError)))"
  by pat_completeness auto
termination
  by (relation "measure length") auto

declare read_tree.simps [simp del]

subsection \<open>Commit payloads: \<open>commit_parse\<close>\<close>

text \<open>
  The result dictionary maps a key to a string, or, for \<open>message\<close>, to a list of
  lines.  A line counts as a header when it contains one of the words \<open>tree\<close>,
  \<open>parent\<close>, \<open>author\<close>, \<open>committer\<close> anywhere; it is split at its first
  space (\<open>ValueError\<close> without one).  Every other line is appended to the
  message list (\<open>AttributeError\<close> once \<open>message\<close> holds a string).
\<close>

datatype pyval = PStr string | PList "string list"

fun commit_parse_lines :: "string list \<Rightarrow> (string \<times> pyval) list \<Rightarrow> (string \<times> pyval) list result" where
  "commit_parse_lines [] res = Inr res"
| "commit_parse_lines (i # is) res =
     (if is_substr ''tree'' i \<or> is_substr ''parent'' i \<or> is_substr ''author'' i \<or> is_substr ''committer'' i
      then
        (case split_first (CHR '' '') i of
           None \<Rightarrow> Inl ValueError
         | Some (name, val) \<Rightarrow> commit_parse_lines is (AList.update name (PStr val) res))
      else
        (case map_of res ''message'' of
           Some (PList ms) \<Rightarrow> commit_parse_lines is (AList.update ''message'' (PList (ms @ [i])) res)
         | _ \<Rightarrow> Inl AttributeError))"

definition commit_parse :: "bytes \<Rightarrow> (string \<times> pyval) list result" where
  "commit_parse raw = commit_parse_lines (map decode (py_split 10 raw)) [(''message'', PList [])]"

subsection \<open>\<open>cat_file\<close> and \<open>find_tree_files\<close>\<close>

text \<open>\<open>f"{x:06}"\<close>: zero-padded to six characters, the sign counted.\<close>

definition pad6 :: "int \<Rightarrow> string" where
  "pad6 x =
     (let s = py_str \<bar>x\<bar> in
      if x < 0 then CHR ''-'' # replicate (5 - length s) (CHR ''0'') @ s
      else replicate (6 - length s) (CHR ''0'') @ s)"

text \<open>The lines \<open>cat_file\<close> prints: a blob or commit as its text, anything else
  read as a tree, one line per entry.\<close>

definition cat_file :: "string \<Rightarrow> obj_store \<Rightarrow> string list result" where
  "cat_file obj_name st =
     rbind (read_object obj_name st) (\<lambda>(fmt, content).
       if fmt = ''blob'' \<or> fmt = ''commit'' then Inr [decode content]
       else map_sum id
              (map (\<lambda>(m, nm, sha). pad6 m @ '' '' @ (if m \<noteq> 40000 then ''blob'' else ''tree'') @ '' ''
                                   @ sha @ CHR 0x09 # nm))
              (read_tree content))"

text \<open>\<open>find_tree_files\<close> passes its digest string to \<open>read_tree\<close>, which expects
  bytes: a non-empty string raises \<open>TypeError\<close> at \<open>data.index(b"\0")\<close>, and the
  empty string ends the loop at once, returning \<open>{tree_sha}\<close>.\<close>

definition find_tree_files :: "string \<Rightarrow> string set result" where
  "find_tree_files tree_sha = (if tree_sha = [] then Inr {tree_sha} else Inl TypeError)"

subsection \<open>Properties of the store\<close>

text \<open>A type tag the frame can carry: no NUL byte and no space.\<close>

definition tag_ok :: "string \<Rightarrow> bool" where
  "tag_ok fmt \<longleftrightarrow> CHR 0x00 \<notin> set fmt \<and> CHR '' '' \<notin> set fmt"

lemma frame_split:
  "frame fmt data = encode fmt @ 32 # encode (py_str (int (length data))) @ 0 # data"
  by (simp add: frame_def)

lemma frame_header:
  assumes "tag_ok fmt"
  shows "hd (py_split 32 (hd (py_split 0 (frame fmt data)))) = encode fmt"
    and "split_first 0 (frame fmt data) = Some (encode fmt @ 32 # encode (py_str (int (length data))), data)"
proof -
  have nz: "(0 :: byte) \<notin> set (encode fmt @ 32 # encode (py_str (int (length data))))"
    using assms py_str_chars by (auto simp: tag_ok_def zero_in_encode)
  have ns: "(32 :: byte) \<notin> set (encode fmt)"
    using assms by (simp add: tag_ok_def space_in_encode)
  show "hd (py_split 32 (hd (py_split 0 (frame fmt data)))) = encode fmt"
    using py_split_append_sep [OF nz, of data] py_split_append_sep [OF ns]
    by (simp add: frame_split)
  show "split_first 0 (frame fmt data) = Some (encode fmt @ 32 # encode (py_str (int (length data))), data)"
    using split_first_append [OF nz, of data] by (simp add: frame_split)
qed

lemma hash_object_sha: "snd (hash_object sha1 data fmt write st) = hex (sha1 (frame fmt data))"
  by (simp add: hash_object_def Let_def)

lemma hash_object_store:
  "fst (hash_object sha1 data fmt write st) =
     (if write then AList.update (obj_key (hex (sha1 (frame fmt data)))) (frame fmt data) st else st)"
  by (simp add: hash_object_def Let_def)

lemma read_object_frame:
  "tag_ok fmt \<Longrightarrow> map_of st (obj_key sha) = Some (frame fmt data) \<Longrightarrow> read_object sha st = Inr (fmt, data)"
  by (simp add: read_object_def frame_header)

text \<open>The digest interface: \<open>hashlib.sha1(x).digest()\<close> is twenty bytes long.\<close>

definition digest_len :: "sha1_fn \<Rightarrow> bool" where
  "digest_len sha1 \<longleftrightarrow> (\<forall>x. length (sha1 x) = 20)"

text \<open>The store's invariant: one file per path, buckets of two characters, names of 38.\<close>

definition store_inv :: "obj_store \<Rightarrow> bool" where
  "store_inv st \<longleftrightarrow>
     distinct (map fst st) \<and> list_all (\<lambda>((d, f), c). length d = 2 \<and> length f = 38) st"

lemma length_hex_digest: "digest_len sha1 \<Longrightarrow> length (hex (sha1 x)) = 40"
  by (simp add: digest_len_def)

lemma obj_key_hex_digest:
  "digest_len sha1 \<Longrightarrow> obj_key (hex (sha1 x)) = (d, f) \<Longrightarrow> length d = 2 \<and> length f = 38"
  using length_hex_digest [of sha1 x] by (auto simp: obj_key_def)

lemma store_inv_update:
  assumes "store_inv st" "length (fst k) = 2" "length (snd k) = 38"
  shows "store_inv (AList.update k v st)"
proof -
  have "distinct (map fst (AList.update k v st))"
    using assms(1) by (simp add: store_inv_def distinct_update)
  moreover have "list_all (\<lambda>((d, f), c). length d = 2 \<and> length f = 38) (AList.update k v st)"
    using assms set_update_subset [of k v st]
    by (fastforce simp: store_inv_def list_all_iff)
  ultimately show ?thesis by (simp add: store_inv_def)
qed

lemma hash_object_keeps_inv:
  assumes "digest_len sha1" "store_inv st"
  shows "store_inv (fst (hash_object sha1 data fmt write st))"
proof -
  obtain d f where k: "obj_key (hex (sha1 (frame fmt data))) = (d, f)"
    by (cases "obj_key (hex (sha1 (frame fmt data)))")
  with assms(1) have "length d = 2 \<and> length f = 38" by (rule obj_key_hex_digest)
  with k assms(2) show ?thesis by (simp add: hash_object_store store_inv_update)
qed

lemma map_of_hash_object_other:
  "obj_key sha' \<noteq> obj_key (snd (hash_object sha1 data fmt write st)) \<Longrightarrow>
     map_of (fst (hash_object sha1 data fmt write st)) (obj_key sha') = map_of st (obj_key sha')"
  by (simp add: hash_object_store hash_object_sha update_conv')

lemma resolve_object_elem:
  "resolve_object p st = Inr l \<Longrightarrow> x \<in> set l \<Longrightarrow>
     \<exists>d f c. ((d, f), c) \<in> set st \<and> x = d @ f \<and> take (length p) x = p"
  unfolding resolve_object_def Let_def
  by (force split: if_splits)

lemma hex_chars: "c \<in> set (hex bs) \<Longrightarrow> \<exists>d < 16. c = digit_char d"
proof (induction bs)
  case (Cons b bs)
  have "unat b div 16 < 16" "unat b mod 16 < 16" using unat_byte_less [of b] by linarith+
  moreover have "c = digit_char (unat b div 16) \<or> c = digit_char (unat b mod 16) \<or> c \<in> set (hex bs)"
    using Cons.prems by simp
  ultimately show ?case using Cons.IH by blast
qed simp

lemma slash_notin_hex: "CHR ''/'' \<notin> set (hex bs)"
proof
  assume "CHR ''/'' \<in> set (hex bs)"
  then obtain d where "d < 16" "CHR ''/'' = digit_char d" using hex_chars by blast
  then have "(of_char (CHR ''/'') :: nat) = of_char (digit_char d)" by simp
  with \<open>d < 16\<close> show False by (simp add: digit_char_def split: if_splits)
qed

text \<open>C1: reading back what \<open>hash_object\<close> wrote gives the type tag and the payload.\<close>

theorem read_object_hash_object:
  "tag_ok fmt \<Longrightarrow>
     read_object (snd (hash_object sha1 data fmt True st)) (fst (hash_object sha1 data fmt True st))
       = Inr (fmt, data)"
  by (rule read_object_frame) (simp_all add: hash_object_store hash_object_sha update_conv')


text \<open>C3: with a twenty-byte digest, \<open>hash_object\<close> keeps the store's invariant.\<close>

theorem hash_object_store_inv:
  "digest_len sha1 \<Longrightarrow> store_inv st \<Longrightarrow> store_inv (fst (hash_object sha1 data fmt write st))"
  by (rule hash_object_keeps_inv)

text \<open>C4: every prefix of four to forty characters of a stored object's name resolves to
  a list holding that name, and every name returned starts with the prefix.\<close>

theorem resolve_object_prefix:
  assumes "((take 2 sha, drop 2 sha), c) \<in> set st" "4 \<le> k" "k \<le> length sha" "k \<le> 40"
  shows "\<exists>l. resolve_object (take k sha) st = Inr l \<and> sha \<in> set l
           \<and> (\<forall>x \<in> set l. take k x = take k sha)"
proof -
  let ?p = "take k sha"
  have len: "length ?p = k" using assms(3) by simp
  have "take 2 ?p = take 2 sha" using assms(2) by (simp add: min_def)
  moreover have "take (length ?p) (take 2 sha @ drop 2 sha) = ?p"
    using len by (simp only: append_take_drop_id)
  ultimately have hit: "((take 2 sha, drop 2 sha), c) \<in> set (filter (\<lambda>((d, f), c). d = take 2 ?p \<and> ?p = take (length ?p) (d @ f)) st)"
    using assms(1) by (simp del: take_append)
  let ?l = "map (\<lambda>((d, f), c). d @ f) (filter (\<lambda>((d, f), c). d = take 2 ?p \<and> ?p = take (length ?p) (d @ f)) st)"
  have "(\<lambda>((d, f), c). d @ f) ((take 2 sha, drop 2 sha), c) \<in> set ?l"
    unfolding set_map using hit by (rule imageI)
  then have "sha \<in> set ?l" by (simp only: prod.case append_take_drop_id)
  moreover have "resolve_object ?p st = Inr ?l"
  proof -
    have "?l \<noteq> []" using \<open>sha \<in> set ?l\<close> by (metis empty_iff list.set(1))
    with len assms(2,4) show ?thesis
      unfolding resolve_object_def Let_def by (simp only: if_False if_True not_less) simp
  qed
  moreover have "\<forall>x \<in> set ?l. take k x = take k sha"
    using len by auto
  ultimately show ?thesis by blast
qed

text \<open>C5: a prefix shorter than four or longer than forty characters, or one that
  matches no stored object, raises \<open>Not a valid object name\<close>.\<close>

theorem resolve_object_errors:
  "(length p < 4 \<or> 40 < length p \<or> (\<forall>((d, f), c) \<in> set st. d \<noteq> take 2 p \<or> take (length p) (d @ f) \<noteq> p))
     \<Longrightarrow> resolve_object p st = Inl (not_valid_name p)"
  by (auto simp: resolve_object_def Let_def filter_empty_conv)

text \<open>C6: \<open>find_object\<close> never finds an object that \<open>hash_object\<close> has just stored:
  it looks for \<open>objects/<sha>\<close>, not \<open>objects/<sha[:2]>/<sha[2:]>\<close>.\<close>

theorem find_object_misses_stored:
  fixes sha1 :: sha1_fn and data :: bytes and fmt :: string and st :: obj_store
  assumes "digest_len sha1" "store_inv st"
  defines "r \<equiv> hash_object sha1 data fmt True st"
  shows "find_object (snd r) (fst r) = Inl (PyException (''Object '' @ snd r @ '' does not exist''))"
proof -
  have inv: "store_inv (fst r)" using assms by (simp add: hash_object_keeps_inv)
  have len: "length (snd r) = 40"
    using length_hex_digest [OF assms(1)] by (simp add: r_def hash_object_sha)
  have slash: "CHR ''/'' \<notin> set (snd r)" by (simp add: r_def hash_object_sha slash_notin_hex)
  have "\<not> list_ex (\<lambda>((d, f), c). snd r = d \<or> snd r = d @ ''/'' @ f) (fst r)"
  proof
    assume "list_ex (\<lambda>((d, f), c). snd r = d \<or> snd r = d @ ''/'' @ f) (fst r)"
    then obtain d f c where mem: "((d, f), c) \<in> set (fst r)" and eq: "snd r = d \<or> snd r = d @ ''/'' @ f"
      by (auto simp: list_ex_iff)
    from inv mem have "length d = 2" by (auto simp: store_inv_def list_all_iff)
    with eq len slash show False by auto
  qed
  with len show ?thesis by (auto simp: find_object_def)
qed

subsection \<open>Examples\<close>

text \<open>A stand-in digest for the examples: twenty copies of the framed length.\<close>

definition sample_sha1 :: sha1_fn where
  "sample_sha1 x = replicate 20 (word_of_nat (length x))"

lemma digest_len_sample_sha1: "digest_len sample_sha1"
  by (simp add: digest_len_def sample_sha1_def)

theorem read_object_hash_object_witness:
  "tag_ok ''blob'' \<and>
   read_object (snd (hash_object sample_sha1 (encode ''hi'') ''blob'' True []))
               (fst (hash_object sample_sha1 (encode ''hi'') ''blob'' True [])) = Inr (''blob'', encode ''hi'')"
  using read_object_hash_object [of "''blob''" sample_sha1 "encode ''hi''" "[]"]
  by (simp add: tag_ok_def)


theorem hash_object_store_inv_witness:
  "digest_len sample_sha1 \<and> store_inv [] \<and>
   store_inv (fst (hash_object sample_sha1 (encode ''hi'') ''blob'' True []))"
  using hash_object_store_inv [of sample_sha1 "[]" "encode ''hi''" "''blob''" True]
  by (simp add: digest_len_sample_sha1 store_inv_def)

theorem resolve_object_prefix_witness:
  "\<exists>l. resolve_object ''0123'' [((''01'', ''23456789abcdef0123456789abcdef01234567''), [])] = Inr l
     \<and> ''0123456789abcdef0123456789abcdef01234567'' \<in> set l"
  using resolve_object_prefix [of "''0123456789abcdef0123456789abcdef01234567''" "[]"
      "[((''01'', ''23456789abcdef0123456789abcdef01234567''), [])]" 4]
  by (simp, blast)

theorem resolve_object_errors_witness:
  "resolve_object ''abc'' [] = Inl (not_valid_name ''abc'')"
  using resolve_object_errors [of "''abc''" "[]"] by simp

theorem find_object_misses_stored_witness:
  "find_object (snd (hash_object sample_sha1 (encode ''hi'') ''blob'' True []))
               (fst (hash_object sample_sha1 (encode ''hi'') ''blob'' True []))
   = Inl (PyException (''Object '' @ snd (hash_object sample_sha1 (encode ''hi'') ''blob'' True []) @ '' does not exist''))"
  using find_object_misses_stored [of sample_sha1 "[]" "encode ''hi''" "''blob''"]
  by (simp add: digest_len_sample_sha1 store_inv_def)

end
