(* ===== verification/Repo.thy ===== *)
theory Repo
  imports Objects
begin

text \<open>
  The state every pyvcs command works on, and \<open>repo_create\<close> of
  \<open>src/homework04/pyvcs/repo.py\<close>.  The working directory is an association list
  from normalised relative paths (\<open>a/b.txt\<close>) to files and directories, in the
  order \<open>glob\<close> lists them; a file carries its bytes and the fields of
  \<open>os.stat\<close> the code reads.  The repository directory \<open>.pyvcs\<close> is a
  directory of the working tree; inside it, the object store, the index file and
  the text files (\<open>HEAD\<close>, refs, \<open>config\<close>, \<open>description\<close>) are fields of
  the record.  \<open>repo_find\<close>'s upward search is the external lookup the spec
  lists; every operation takes the repository it found.
\<close>

record file_stat =
  st_ctime :: int
  st_mtime :: int
  st_dev :: int
  st_ino :: int
  st_mode :: int
  st_uid :: int
  st_gid :: int
  st_size :: int

datatype wnode = WFile bytes file_stat | WDir

type_synonym worktree = "(string \<times> wnode) list"

record repo =
  objects :: obj_store
  index_file :: "bytes option"
  meta :: "(string \<times> string) list"
  worktree :: worktree

subsection \<open>Paths of the working tree\<close>

text \<open>
  \<open>pathlib\<close> normalises a relative path by dropping empty and \<open>.\<close> components;
  the empty path is \<open>.\<close>.  \<open>Path.glob("*")\<close> lists the children of a directory,
  hidden ones included, and nothing for a path that is not a directory.
\<close>

definition norm_path :: "string \<Rightarrow> string" where
  "norm_path p =
     (let cs = filter (\<lambda>c. c \<noteq> [] \<and> c \<noteq> ''.'') (py_split (CHR ''/'') p)
      in if cs = [] then ''.'' else py_join (CHR ''/'') cs)"

definition parent_path :: "string \<Rightarrow> string" where
  "parent_path p =
     (let cs = py_split (CHR ''/'') p in if length cs \<le> 1 then ''.'' else py_join (CHR ''/'') (butlast cs))"

definition glob :: "worktree \<Rightarrow> string \<Rightarrow> string list" where
  "glob wt d = map fst (filter (\<lambda>(q, n). parent_path q = norm_path d) wt)"

definition git_dir :: string where
  "git_dir = ''.pyvcs''"

definition default_config :: string where
  "default_config =
     ''[core]'' @ [CHR 0x0A, CHR 0x09] @ ''repositoryformatversion = 0'' @ [CHR 0x0A, CHR 0x09]
     @ ''filemode = true'' @ [CHR 0x0A, CHR 0x09] @ ''bare = false'' @ [CHR 0x0A, CHR 0x09]
     @ ''logallrefupdates = false'' @ [CHR 0x0A]"

text \<open>
  \<open>repo_create\<close>: the working directory must be a directory, and
  \<open>os.makedirs\<close> raises \<open>FileExistsError\<close> when \<open>.pyvcs\<close> exists already.
\<close>

definition repo_create :: "string \<Rightarrow> bool \<Rightarrow> worktree \<Rightarrow> repo result" where
  "repo_create workdir is_dir wt =
     (if \<not> is_dir then Inl (PyException (workdir @ '' is not a directory''))
      else if map_of wt git_dir \<noteq> None then Inl FileExistsError
      else Inr \<lparr>objects = [], index_file = None,
                meta = [(''HEAD'', ''ref: refs/heads/master'' @ [CHR 0x0A]),
                        (''config'', default_config),
                        (''description'', ''Unnamed pyvcs repository.'' @ [CHR 0x0A])],
                worktree = wt @ [(git_dir, WDir)]\<rparr>)"

end
