(* ===== verification/Index.thy ===== *)
theory Index
  imports Repo
begin

text \<open>
  The staging index of \<open>src/homework04/pyvcs/index.py\<close>: the fixed-layout entry
  \<open>GitIndexEntry\<close> with its \<open>pack\<close>/\<open>unpack\<close>, the index file's reader and
  writer, and staging (\<open>update_index\<close>).  The file is a byte list; a missing file
  is \<open>None\<close>.
\<close>

record index_entry =
  ctime_s :: int
  ctime_n :: int
  mtime_s :: int
  mtime_n :: int
  dev :: int
  ino :: int
  mode :: int
  uid :: int
  gid :: int
  size_bytes :: int
  sha1 :: bytes
  flags :: int
  name :: string

subsection \<open>\<open>GitIndexEntry.pack\<close> and \<open>unpack\<close>\<close>

text \<open>The ten \<open>I\<close> fields in order; \<open>ino\<close> is masked to 32 bits first.\<close>

definition entry_ints :: "index_entry \<Rightarrow> int list" where
  "entry_ints e =
     [ctime_s e, ctime_n e, mtime_s e, mtime_n e, dev e, take_bit 32 (ino e),
      mode e, uid e, gid e, size_bytes e]"

text \<open>The \<open>x\<close> padding: \<open>8 - (62 + len(name)) % 8\<close>, between one and eight bytes.\<close>

definition pad_len :: "nat \<Rightarrow> nat" where
  "pad_len n = 8 - (62 + n) mod 8"

definition pack :: "index_entry \<Rightarrow> bytes result" where
  "pack e =
     (if list_all (\<lambda>v. 0 \<le> v \<and> v < 2 ^ 32) (entry_ints e) \<and> - 32768 \<le> flags e \<and> flags e < 32768
      then Inr (concat (map (be_bytes 4) (entry_ints e)) @ pack_s 20 (sha1 e) @ be_bytes 2 (flags e)
                @ pack_s (length (name e)) (encode (name e)) @ replicate (pad_len (length (name e))) 0)
      else Inl StructError)"

definition u32_at :: "nat \<Rightarrow> bytes \<Rightarrow> int" where
  "u32_at i data = be_val (take 4 (drop (4 * i) data))"

text \<open>\<open>struct.unpack(">10I20sh{len(data)-62}s", data)\<close>: a negative count is a \<open>struct.error\<close>.\<close>

definition unpack :: "bytes \<Rightarrow> index_entry result" where
  "unpack data =
     (if length data < 62 then Inl StructError
      else Inr \<lparr>ctime_s = u32_at 0 data, ctime_n = u32_at 1 data, mtime_s = u32_at 2 data,
                mtime_n = u32_at 3 data, dev = u32_at 4 data, ino = u32_at 5 data,
                mode = u32_at 6 data, uid = u32_at 7 data, gid = u32_at 8 data,
                size_bytes = u32_at 9 data, sha1 = take 20 (drop 40 data),
                flags = unpack_h (take 2 (drop 60 data)), name = decode (rstrip0 (drop 62 data))\<rparr>)"

subsection \<open>The entry format\<close>

text \<open>
  An entry the format can carry: every \<open>I\<close> field (with \<open>ino\<close> unmasked) in
  range, \<open>flags\<close> a signed 16-bit value, a twenty-byte digest, a name without NUL.
\<close>

definition entry_ok :: "index_entry \<Rightarrow> bool" where
  "entry_ok e \<longleftrightarrow>
     list_all (\<lambda>v. 0 \<le> v \<and> v < 2 ^ 32)
       [ctime_s e, ctime_n e, mtime_s e, mtime_n e, dev e, ino e, mode e, uid e, gid e, size_bytes e]
     \<and> - 32768 \<le> flags e \<and> flags e < 32768 \<and> length (sha1 e) = 20 \<and> CHR 0x00 \<notin> set (name e)"

definition entry_head :: "index_entry \<Rightarrow> bytes" where
  "entry_head e = concat (map (be_bytes 4) (entry_ints e)) @ sha1 e @ be_bytes 2 (flags e)"

lemma length_concat_be_bytes:
  "length (concat (map (be_bytes 4) vs)) = 4 * length vs"
  by (induction vs) auto

lemma length_entry_head [simp]: "length (entry_head e) = 62" if "length (sha1 e) = 20"
  using that by (simp add: entry_head_def length_concat_be_bytes entry_ints_def)

lemma take_bit_32_small: "0 \<le> v \<Longrightarrow> v < 2 ^ 32 \<Longrightarrow> take_bit 32 v = (v :: int)"
  by (simp add: take_bit_int_eq_self)

definition packed_entry :: "index_entry \<Rightarrow> bytes" where
  "packed_entry e = entry_head e @ encode (name e) @ replicate (pad_len (length (name e))) 0"

lemma length_packed_entry:
  "length (sha1 e) = 20 \<Longrightarrow> length (packed_entry e) = 62 + length (name e) + pad_len (length (name e))"
  by (simp add: packed_entry_def)

lemma pack_entry_ok:
  "entry_ok e \<Longrightarrow> pack e = Inr (entry_head e @ encode (name e) @ replicate (pad_len (length (name e))) 0)"
  by (simp add: pack_def entry_ok_def entry_ints_def entry_head_def take_bit_32_small)

lemma pad_len_bounds: "1 \<le> pad_len n \<and> pad_len n \<le> 8"
  by (simp add: pad_len_def)

lemma pad_len_aligned: "(62 + n + pad_len n) mod 8 = 0"
  by (simp add: pad_len_def) presburger

lemma unpack_entry_ok:
  assumes "entry_ok e"
  shows "unpack (entry_head e @ encode (name e) @ replicate n 0) = Inr e"
proof -
  have ok: "list_all (\<lambda>v. 0 \<le> v \<and> v < 2 ^ 32)
       [ctime_s e, ctime_n e, mtime_s e, mtime_n e, dev e, ino e, mode e, uid e, gid e, size_bytes e]"
    "- 32768 \<le> flags e" "flags e < 32768" "length (sha1 e) = 20" "CHR 0x00 \<notin> set (name e)"
    using assms by (simp_all add: entry_ok_def)
  have nm: "rstrip0 (encode (name e) @ replicate n 0) = encode (name e)"
  proof (rule rstrip0_append_zeros)
    show "encode (name e) = [] \<or> last (encode (name e)) \<noteq> 0"
      using ok(5) zero_in_encode [of "name e"] by (metis last_in_set)
  qed
  show ?thesis
    using ok unpack_h_be_bytes [OF ok(2,3)]
    by (simp add: unpack_def entry_head_def entry_ints_def u32_at_def nm be_val_be_bytes_4 take_bit_32_small)
qed

subsection \<open>The index file: \<open>read_index\<close> and \<open>write_index\<close>\<close>

text \<open>
  \<open>read_index\<close> finds the end of an entry by scanning the bytes at offsets
  63, 71, 79, \<dots> for the first NUL (\<open>for j in range(63, len(mc), 8)\<close>); without
  one the entry runs to the end of the remaining bytes.
\<close>

function scan_zero :: "nat \<Rightarrow> bytes \<Rightarrow> nat option" where
  "scan_zero j mc = (if j < length mc then (if mc ! j = 0 then Some j else scan_zero (j + 8) mc) else None)"
  by pat_completeness auto
termination
  by (relation "measure (\<lambda>(j, mc). length mc - j)") auto

declare scan_zero.simps [simp del]

text \<open>\<open>end_of_entry + 1\<close>: the number of bytes the entry takes (zero for no bytes).\<close>

definition entry_len :: "bytes \<Rightarrow> nat" where
  "entry_len mc = (case scan_zero 63 mc of Some j \<Rightarrow> Suc j | None \<Rightarrow> length mc)"

text \<open>One iteration per declared entry; an entry that does not unpack raises.\<close>

fun read_entries :: "nat \<Rightarrow> bytes \<Rightarrow> index_entry list result" where
  "read_entries 0 mc = Inr []"
| "read_entries (Suc k) mc =
     (case unpack (take (entry_len mc) mc) of
        Inl e \<Rightarrow> Inl e
      | Inr ent \<Rightarrow> map_sum id (Cons ent) (read_entries k (drop (entry_len mc) mc)))"

text \<open>
  A missing file is the empty index.  The count is the big-endian word at bytes
  8 to 11 (\<open>struct.error\<close> when the file is shorter); magic, version and the
  trailing checksum are not looked at.
\<close>

definition read_index :: "bytes option \<Rightarrow> index_entry list result" where
  "read_index f =
     (case f of
        None \<Rightarrow> Inr []
      | Some data \<Rightarrow>
          (let header = take 12 data
           in if length (drop 8 header) \<noteq> 4 then Inl StructError
              else read_entries (nat (be_val (drop 8 header))) (drop 12 data)))"

definition index_magic :: bytes where
  "index_magic = [68, 73, 82, 67, 0, 0, 0, 2]"

definition index_data :: "index_entry list \<Rightarrow> bytes result" where
  "index_data entries =
     (case pack_I (int (length entries)) of
        Inl e \<Rightarrow> Inl e
      | Inr cnt \<Rightarrow>
          (case seq_results (map pack entries) of
             Inl e \<Rightarrow> Inl e
           | Inr packed \<Rightarrow> Inr (index_magic @ cnt @ concat packed)))"

text \<open>
  \<open>write_index\<close> opens the file with \<open>"wb"\<close> before packing: it returns the
  outcome and the file's new contents, which are empty when packing raised.
\<close>

definition write_index :: "sha1_fn \<Rightarrow> index_entry list \<Rightarrow> unit result \<times> bytes" where
  "write_index h entries =
     (case index_data entries of
        Inl e \<Rightarrow> (Inl e, [])
      | Inr data \<Rightarrow> (Inr (), data @ h data))"

text \<open>\<open>ls_files\<close>: the lines it prints, in index order.\<close>

definition ls_files :: "bytes option \<Rightarrow> bool \<Rightarrow> string list result" where
  "ls_files f details =
     map_sum id
       (map (\<lambda>e. if details then py_oct (mode e) @ '' '' @ hex (sha1 e) @ '' 0'' @ CHR 0x09 # name e
                 else name e))
       (read_index f)"

subsection \<open>Staging: \<open>update_index\<close>\<close>

text \<open>The entry \<open>update_index\<close> builds from a file's \<open>os.stat\<close> and its blob digest.\<close>

definition entry_of_stat :: "file_stat \<Rightarrow> bytes \<Rightarrow> string \<Rightarrow> index_entry" where
  "entry_of_stat st digest path =
     \<lparr>ctime_s = st_ctime st, ctime_n = 0, mtime_s = st_mtime st, mtime_n = 0, dev = st_dev st,
      ino = st_ino st, mode = st_mode st, uid = st_uid st, gid = st_gid st, size_bytes = st_size st,
      sha1 = digest, flags = 7, name = path\<rparr>"

text \<open>The file metadata the index format can carry.\<close>

definition stat_ok :: "file_stat \<Rightarrow> bool" where
  "stat_ok st \<longleftrightarrow>
     list_all (\<lambda>v. 0 \<le> v \<and> v < 2 ^ 32)
       [st_ctime st, st_mtime st, st_dev st, st_ino st, st_mode st, st_uid st, st_gid st, st_size st]"

text \<open>
  The loop over \<open>paths\<close>: each file is read (\<open>FileNotFoundError\<close>, or
  \<open>IsADirectoryError\<close> for a directory), stored as a blob, and its entry appended;
  entries already in the index are kept.  Blobs written before a failing path stay.
\<close>

fun stage_files ::
  "sha1_fn \<Rightarrow> string list \<Rightarrow> repo \<Rightarrow> index_entry list \<Rightarrow> index_entry list result \<times> repo" where
  "stage_files h [] r entr = (Inr entr, r)"
| "stage_files h (p # ps) r entr =
     (case map_of (worktree r) p of
        None \<Rightarrow> (Inl FileNotFoundError, r)
      | Some WDir \<Rightarrow> (Inl IsADirectoryError, r)
      | Some (WFile data st) \<Rightarrow>
          (let (objs, sha) = hash_object h data ''blob'' True (objects r)
           in case fromhex sha of
                Inl e \<Rightarrow> (Inl e, r\<lparr>objects := objs\<rparr>)
              | Inr digest \<Rightarrow> stage_files h ps (r\<lparr>objects := objs\<rparr>) (entr @ [entry_of_stat st digest p])))"

definition update_index :: "sha1_fn \<Rightarrow> string list \<Rightarrow> bool \<Rightarrow> repo \<Rightarrow> unit result \<times> repo" where
  "update_index h paths write r =
     (case read_index (index_file r) of
        Inl e \<Rightarrow> (Inl e, r)
      | Inr entr \<Rightarrow>
          (case stage_files h paths r entr of
             (Inl e, r') \<Rightarrow> (Inl e, r')
           | (Inr entr', r') \<Rightarrow>
               if write
               then (let (res, f) = write_index h (sort_key name entr') in (res, r'\<lparr>index_file := Some f\<rparr>))
               else (Inr (), r')))"

subsection \<open>Reading back what was written\<close>

lemma scan_zero_hit:
  "j \<le> m \<Longrightarrow> (m - j) mod 8 = 0 \<Longrightarrow> m < length xs \<Longrightarrow> xs ! m = 0 \<Longrightarrow>
     (\<forall>i. j \<le> i \<and> i < m \<and> (i - j) mod 8 = 0 \<longrightarrow> xs ! i \<noteq> 0) \<Longrightarrow> scan_zero j xs = Some m"
proof (induction j xs rule: scan_zero.induct)
  case (1 j xs)
  show ?case
  proof (cases "j = m")
    case True
    with "1.prems" show ?thesis by (simp add: scan_zero.simps [of m xs])
  next
    case False
    with "1.prems"(1,2) have "j + 8 \<le> m" by presburger
    moreover from "1.prems"(5) False \<open>j \<le> m\<close> have "xs ! j \<noteq> 0" by auto
    moreover from "1.prems"(2) \<open>j + 8 \<le> m\<close> have "(m - (j + 8)) mod 8 = 0" by presburger
    moreover have "\<forall>i. j + 8 \<le> i \<and> i < m \<and> (i - (j + 8)) mod 8 = 0 \<longrightarrow> xs ! i \<noteq> 0"
    proof (intro allI impI)
      fix i assume i: "j + 8 \<le> i \<and> i < m \<and> (i - (j + 8)) mod 8 = 0"
      then have "j \<le> i \<and> i < m \<and> (i - j) mod 8 = 0" by presburger
      then show "xs ! i \<noteq> 0" by (rule mp [OF spec [OF "1.prems"(5)]])
    qed
    moreover have "j < length xs" using "1.prems"(3) \<open>j + 8 \<le> m\<close> by simp
    ultimately show ?thesis
      using "1.IH" "1.prems"(3,4) by (simp add: scan_zero.simps [of j xs])
  qed
qed

lemma entry_len_packed:
  assumes "entry_ok e"
  shows "entry_len ((entry_head e @ encode (name e) @ replicate (pad_len (length (name e))) 0) @ rest)
           = 62 + length (name e) + pad_len (length (name e))"
proof -
  let ?n = "length (name e)"
  let ?p = "pad_len ?n"
  let ?xs = "(entry_head e @ encode (name e) @ replicate ?p 0) @ rest"
  let ?m = "61 + ?n + ?p"
  have sha: "length (sha1 e) = 20" and nul: "CHR 0x00 \<notin> set (name e)"
    using assms by (simp_all add: entry_ok_def)
  have p: "1 \<le> ?p" "?p \<le> 8" using pad_len_bounds by blast+
  have al: "(62 + ?n + ?p) mod 8 = 0" by (rule pad_len_aligned)
  have nth: "?xs ! i = (if i < 62 then entry_head e ! i
                        else if i < 62 + ?n then encode (name e) ! (i - 62)
                        else if i < 62 + ?n + ?p then 0 else rest ! (i - (62 + ?n + ?p)))" for i
    using sha by (auto simp: nth_append)
  have "scan_zero 63 ?xs = Some ?m"
  proof (rule scan_zero_hit)
    show "63 \<le> ?m" using p al by presburger
    show "(?m - 63) mod 8 = 0" using p al by presburger
    show "?m < length ?xs" using sha p by simp
    show "?xs ! ?m = 0" unfolding nth using p by simp
    show "\<forall>i. 63 \<le> i \<and> i < ?m \<and> (i - 63) mod 8 = 0 \<longrightarrow> ?xs ! i \<noteq> 0"
    proof (intro allI impI)
      fix i assume i: "63 \<le> i \<and> i < ?m \<and> (i - 63) mod 8 = 0"
      have "i < 62 + ?n"
      proof (rule ccontr)
        assume "\<not> i < 62 + ?n"
        with i p al show False by presburger
      qed
      then have "?xs ! i = encode (name e) ! (i - 62)" using i unfolding nth by simp
      moreover have "encode (name e) ! (i - 62) \<in> set (encode (name e))"
        using \<open>i < 62 + ?n\<close> i by (intro nth_mem) auto
      ultimately show "?xs ! i \<noteq> 0" using nul zero_in_encode [of "name e"] by metis
    qed
  qed
  then show ?thesis by (simp add: entry_len_def)
qed

lemma read_entries_packed:
  "list_all entry_ok es \<Longrightarrow> read_entries (length es) (concat (map packed_entry es) @ rest) = Inr es"
proof (induction es)
  case (Cons e es)
  let ?mc = "packed_entry e @ (concat (map packed_entry es) @ rest)"
  have ok: "entry_ok e" "list_all entry_ok es" using Cons.prems by simp_all
  then have sha: "length (sha1 e) = 20" by (simp add: entry_ok_def)
  have len: "entry_len ?mc = length (packed_entry e)"
    using entry_len_packed [OF ok(1), of "concat (map packed_entry es) @ rest"] sha
    by (simp add: packed_entry_def)
  have "take (entry_len ?mc) ?mc = packed_entry e" unfolding len by simp
  moreover have "unpack (packed_entry e) = Inr e"
    unfolding packed_entry_def by (rule unpack_entry_ok [OF ok(1)])
  moreover have "drop (entry_len ?mc) ?mc = concat (map packed_entry es) @ rest"
    unfolding len by simp
  ultimately show ?case using Cons.IH [OF ok(2)] by simp
qed simp

lemma index_data_ok:
  "list_all entry_ok es \<Longrightarrow> length es < 2 ^ 32 \<Longrightarrow>
     index_data es = Inr (index_magic @ be_bytes 4 (int (length es)) @ concat (map packed_entry es))"
proof -
  assume ok: "list_all entry_ok es" and n: "length es < 2 ^ 32"
  have "seq_results (map pack es) = Inr (map packed_entry es)"
    using ok by (intro seq_results_map_Inr) (simp add: list_all_iff pack_entry_ok packed_entry_def)
  moreover have "pack_I (int (length es)) = Inr (be_bytes 4 (int (length es)))"
    using n by (simp add: pack_I_def)
  ultimately show ?thesis by (simp add: index_data_def)
qed

lemma write_read_index:
  assumes "list_all entry_ok es" "length es < 2 ^ 32"
  shows "fst (write_index h es) = Inr () \<and> read_index (Some (snd (write_index h es))) = Inr es"
proof -
  let ?data = "index_magic @ be_bytes 4 (int (length es)) @ concat (map packed_entry es)"
  have w: "write_index h es = (Inr (), ?data @ h ?data)"
    using index_data_ok [OF assms] by (simp add: write_index_def)
  have cnt: "be_val (be_bytes 4 (int (length es))) = int (length es)"
    using assms(2) by (intro be_val_be_bytes_4) simp_all
  have "read_index (Some (?data @ h ?data)) = read_entries (length es) (concat (map packed_entry es) @ h ?data)"
    using cnt by (simp add: read_index_def index_magic_def Let_def)
  then show ?thesis using w read_entries_packed [OF assms(1)] by simp
qed

lemma stage_files_one:
  "map_of (worktree r) p = Some (WFile data st) \<Longrightarrow>
     stage_files h [p] r entr =
       (Inr (entr @ [entry_of_stat st (h (frame ''blob'' data)) p]),
        r\<lparr>objects := fst (hash_object h data ''blob'' True (objects r))\<rparr>)"
  by (simp add: hash_object_def Let_def)

lemma entry_of_stat_ok:
  "stat_ok st \<Longrightarrow> length digest = 20 \<Longrightarrow> CHR 0x00 \<notin> set p \<Longrightarrow> entry_ok (entry_of_stat st digest p)"
  by (simp add: stat_ok_def entry_ok_def entry_of_stat_def)

lemma update_index_one:
  assumes "read_index (index_file r) = Inr entr" "list_all entry_ok entr" "length entr + 1 < 2 ^ 32"
    "map_of (worktree r) p = Some (WFile data st)" "stat_ok st" "CHR 0x00 \<notin> set p" "digest_len h"
  shows "fst (update_index h [p] True r) = Inr ()
    \<and> read_index (index_file (snd (update_index h [p] True r)))
        = Inr (sort_key name (entr @ [entry_of_stat st (h (frame ''blob'' data)) p]))"
proof -
  let ?new = "entr @ [entry_of_stat st (h (frame ''blob'' data)) p]"
  have ok: "list_all entry_ok (sort_key name ?new)"
    using assms(2,5,6,7) entry_of_stat_ok by (auto simp: list_all_iff digest_len_def)
  have len: "length (sort_key name ?new) < 2 ^ 32" using assms(3) by simp
  have u: "update_index h [p] True r =
    (fst (write_index h (sort_key name ?new)),
     (r\<lparr>objects := fst (hash_object h data ''blob'' True (objects r))\<rparr>)
        \<lparr>index_file := Some (snd (write_index h (sort_key name ?new)))\<rparr>)"
    using assms(1,4) by (simp add: update_index_def stage_files_one del: stage_files.simps split: prod.splits)
  show ?thesis using write_read_index [OF ok len, of h] u by simp
qed

lemma count_staged:
  "length (filter (\<lambda>e. name e = p) (sort_key name (entr @ [entry_of_stat st d p])))
     = Suc (length (filter (\<lambda>e. name e = p) entr))"
  using sort_key_stable [of name p "entr @ [entry_of_stat st d p]"]
  by (simp add: entry_of_stat_def)

lemma seq_results_map_Inl:
  "x \<in> set xs \<Longrightarrow> f x = Inl err \<Longrightarrow> (\<forall>y \<in> set xs. \<forall>e. f y = Inl e \<longrightarrow> e = err) \<Longrightarrow>
     seq_results (map f xs) = Inl err"
proof (induction xs)
  case (Cons y ys)
  show ?case
  proof (cases "f y")
    case (Inl e)
    with Cons.prems(3) have "e = err" by simp
    with Inl show ?thesis by simp
  next
    case (Inr v)
    with Cons.prems(1,2) have x: "x \<in> set ys" by auto
    have all: "\<forall>z \<in> set ys. \<forall>e. f z = Inl e \<longrightarrow> e = err" using Cons.prems(3) by simp
    from x Cons.prems(2) all have "seq_results (map f ys) = Inl err" by (rule Cons.IH)
    with Inr show ?thesis by simp
  qed
qed simp

lemma pack_error: "pack e = Inl err \<Longrightarrow> err = StructError"
  by (simp add: pack_def split: if_splits)

subsection \<open>Properties of the index\<close>



text \<open>C9: re-staging a path that is already in the index adds a second entry with the same name:
  the old entry is not replaced.\<close>

theorem restage_duplicates:
  assumes "read_index (index_file r) = Inr entr" "list_all entry_ok entr" "length entr + 1 < 2 ^ 32"
    "map_of (worktree r) p = Some (WFile data st)" "stat_ok st" "CHR 0x00 \<notin> set p" "digest_len h"
    "p \<in> name ` set entr"
  shows "\<exists>es. read_index (index_file (snd (update_index h [p] True r))) = Inr es
              \<and> 2 \<le> length (filter (\<lambda>e. name e = p) es)"
proof -
  have "1 \<le> length (filter (\<lambda>e. name e = p) entr)"
    using assms(8) by (auto simp: Suc_le_eq filter_empty_conv)
  then show ?thesis
    using update_index_one [OF assms(1-7)] count_staged [of p entr st "h (frame ''blob'' data)"]
    by auto
qed

text \<open>C10: a field \<open>struct\<close> cannot carry (a file of 4 GiB or more) makes \<open>write_index\<close> raise
  after it has truncated the file, and the empty index file then fails to read.\<close>

theorem write_index_truncates:
  "e \<in> set es \<Longrightarrow> 2 ^ 32 \<le> size_bytes e \<Longrightarrow>
     write_index h es = (Inl StructError, []) \<and> read_index (Some []) = Inl StructError"
proof -
  assume e: "e \<in> set es" and big: "2 ^ 32 \<le> size_bytes e"
  have "pack e = Inl StructError" using big by (simp add: pack_def entry_ints_def)
  then have "seq_results (map pack es) = Inl StructError"
    using e pack_error by (intro seq_results_map_Inl) blast+
  then have "index_data es = Inl StructError"
    by (auto simp: index_data_def pack_I_def split: sum.splits)
  then show ?thesis by (simp add: write_index_def read_index_def)
qed

lemma stage_files_worktree: "worktree (snd (stage_files h ps r entr)) = worktree r"
  by (induction h ps r entr rule: stage_files.induct)
     (auto simp: Let_def split: option.splits wnode.splits prod.splits sum.splits)

lemma update_index_worktree: "worktree (snd (update_index h ps write r)) = worktree r"
proof (cases "read_index (index_file r)")
  case (Inr entr)
  obtain res r' where st: "stage_files h ps r entr = (res, r')" by fastforce
  then have "worktree r' = worktree r" using stage_files_worktree [of h ps r entr] by simp
  with Inr st show ?thesis by (auto simp: update_index_def Let_def split: sum.splits prod.splits)
qed (simp add: update_index_def)

subsection \<open>Examples\<close>

definition sample_stat :: file_stat where
  "sample_stat = \<lparr>st_ctime = 1, st_mtime = 2, st_dev = 3, st_ino = 4, st_mode = 33188,
                  st_uid = 1000, st_gid = 1000, st_size = 2\<rparr>"

definition sample_repo :: repo where
  "sample_repo = \<lparr>objects = [], index_file = None, meta = [],
                  worktree = [(''a.txt'', WFile (encode ''hi'') sample_stat)]\<rparr>"

lemma stat_ok_sample: "stat_ok sample_stat"
  by (simp add: stat_ok_def sample_stat_def)



theorem restage_duplicates_witness:
  "\<exists>es. read_index (index_file (snd (update_index sample_sha1 [''a.txt''] True
            (snd (update_index sample_sha1 [''a.txt''] True sample_repo))))) = Inr es
        \<and> 2 \<le> length (filter (\<lambda>e. name e = ''a.txt'') es)"
proof -
  let ?r1 = "snd (update_index sample_sha1 [''a.txt''] True sample_repo)"
  let ?e1 = "entry_of_stat sample_stat (sample_sha1 (frame ''blob'' (encode ''hi''))) ''a.txt''"
  have r1: "read_index (index_file ?r1) = Inr [?e1]"
    using update_index_one [of sample_repo "[]" "''a.txt''" "encode ''hi''" sample_stat sample_sha1]
    by (simp add: read_index_def sample_repo_def stat_ok_sample digest_len_sample_sha1)
  have ok: "list_all entry_ok [?e1]"
    by (simp add: entry_ok_def entry_of_stat_def sample_stat_def sample_sha1_def)
  have wt: "map_of (worktree ?r1) ''a.txt'' = Some (WFile (encode ''hi'') sample_stat)"
    by (simp add: update_index_worktree sample_repo_def)
  show ?thesis
    using restage_duplicates [OF r1 ok _ wt stat_ok_sample _ digest_len_sample_sha1]
    by (simp add: entry_of_stat_def)
qed

theorem write_index_truncates_witness:
  "write_index sample_sha1 [entry_of_stat (sample_stat\<lparr>st_size := 2 ^ 32\<rparr>) (replicate 20 1) ''big'']
     = (Inl StructError, []) \<and> read_index (Some []) = Inl StructError"
  using write_index_truncates [of "entry_of_stat (sample_stat\<lparr>st_size := 2 ^ 32\<rparr>) (replicate 20 1) ''big''"
      "[entry_of_stat (sample_stat\<lparr>st_size := 2 ^ 32\<rparr>) (replicate 20 1) ''big'']" sample_sha1]
  by (simp add: entry_of_stat_def)

end
