(* ===== verification/Tree.thy ===== *)
theory Tree
  imports Index
begin

text \<open>
  Tree and commit construction of \<open>src/homework04/pyvcs/tree.py\<close>.
  \<open>write_tree\<close> recurses once per subdirectory and may recurse forever (Python's
  \<open>RecursionError\<close>), so it carries fuel: \<open>None\<close> is running out of it.
\<close>

subsection \<open>\<open>write_tree\<close>\<close>

text \<open>One tree entry: \<open>f"{mode:o} {path.split('/')[-1]}".encode() + b"\0" + sha\<close>.\<close>

definition tree_entry_bytes :: "int \<times> string \<times> bytes \<Rightarrow> bytes" where
  "tree_entry_bytes x =
     (case x of (m, p, sha) \<Rightarrow> encode (py_oct m @ '' '' @ last (py_split (CHR ''/'') p)) @ 0 # sha)"

definition tree_data :: "(int \<times> string \<times> bytes) list \<Rightarrow> bytes" where
  "tree_data tc = concat (map tree_entry_bytes tc)"

text \<open>\<open>subtrees[dname].append(entry)\<close> on an insertion-ordered dictionary.\<close>

fun add_subtree ::
  "(string \<times> index_entry list) list \<Rightarrow> string \<Rightarrow> index_entry \<Rightarrow> (string \<times> index_entry list) list" where
  "add_subtree [] k e = [(k, [e])]"
| "add_subtree ((k', es) # rest) k e =
     (if k' = k then (k', es @ [e]) # rest else (k', es) # add_subtree rest k e)"

text \<open>
  The first loop: an entry whose name is among the directory's listed paths is a
  blob of this tree; any other is filed under the first path segment of its name
  after \<open>lstrip(dirname)\<close>, which strips leading characters drawn from
  \<open>dirname\<close>, not the prefix \<open>dirname\<close>.
\<close>

fun partition_index ::
  "string list \<Rightarrow> string \<Rightarrow> index_entry list \<Rightarrow> (int \<times> string \<times> bytes) list \<Rightarrow>
   (string \<times> index_entry list) list \<Rightarrow> (int \<times> string \<times> bytes) list \<times> (string \<times> index_entry list) list" where
  "partition_index files dirname [] tc sub = (tc, sub)"
| "partition_index files dirname (e # es) tc sub =
     (if name e \<in> set files
      then partition_index files dirname es (tc @ [(mode e, norm_path (name e), sha1 e)]) sub
      else partition_index files dirname es tc
             (add_subtree sub (hd (py_split (CHR ''/'') (lstrip dirname (name e)))) e))"

text \<open>\<open>bytes.fromhex\<close> of a digest \<open>hash_object\<close> returned; it cannot fail there.\<close>

definition sha_bytes :: "string \<Rightarrow> bytes" where
  "sha_bytes s = (case fromhex s of Inr b \<Rightarrow> b | Inl _ \<Rightarrow> [])"

function (sequential) write_tree ::
  "nat \<Rightarrow> sha1_fn \<Rightarrow> worktree \<Rightarrow> obj_store \<Rightarrow> index_entry list \<Rightarrow> string \<Rightarrow> (obj_store \<times> string) option"
and write_subtrees ::
  "nat \<Rightarrow> sha1_fn \<Rightarrow> worktree \<Rightarrow> obj_store \<Rightarrow> string \<Rightarrow> (string \<times> index_entry list) list \<Rightarrow>
   (int \<times> string \<times> bytes) list \<Rightarrow> (obj_store \<times> (int \<times> string \<times> bytes) list) option" where
  "write_tree 0 h wt st index dirname = None"
| "write_tree (Suc n) h wt st index dirname =
     (case partition_index (glob wt dirname) dirname index [] [] of
        (tc, subtrees) \<Rightarrow>
          (case write_subtrees n h wt st dirname subtrees tc of
             None \<Rightarrow> None
           | Some (st', tc') \<Rightarrow>
               Some (hash_object h (tree_data (sort_key (\<lambda>x. fst (snd x)) tc')) ''tree'' True st')))"
| "write_subtrees n h wt st dirname [] tc = Some (st, tc)"
| "write_subtrees n h wt st dirname ((nm, es) # rest) tc =
     (case write_tree n h wt st es (if dirname \<noteq> [] then dirname @ ''/'' @ nm else nm) of
        None \<Rightarrow> None
      | Some (st', sha) \<Rightarrow>
          write_subtrees n h wt st' dirname rest
            (tc @ [(16384, norm_path (dirname @ ''/'' @ nm), sha_bytes sha)]))"
  by pat_completeness auto
termination
  by (relation "measures [\<lambda>x. case x of Inl (n, _) \<Rightarrow> n | Inr (n, _) \<Rightarrow> n,
                          \<lambda>x. case x of Inl _ \<Rightarrow> 0 | Inr _ \<Rightarrow> 1,
                          \<lambda>x. case x of Inl _ \<Rightarrow> 0 | Inr (_, _, _, _, _, l, _) \<Rightarrow> length l]") auto

subsection \<open>\<open>commit_tree\<close>\<close>

text \<open>
  The clock and the environment are inputs: \<open>now\<close> is
  \<open>int(time.mktime(time.localtime()))\<close> (both calls are taken to fall in the same
  second), \<open>tz\<close> is \<open>time.timezone\<close> (seconds west of UTC), \<open>env\<close> is
  \<open>os.environ\<close>.
\<close>

definition pad2 :: "int \<Rightarrow> string" where
  "pad2 x = (let s = py_str x in replicate (2 - length s) (CHR ''0'') @ s)"

definition tz_string :: "int \<Rightarrow> string" where
  "tz_string tz = (if tz > 0 then ''-'' else ''+'') @ pad2 (\<bar>tz\<bar> div 60 div 60) @ pad2 (\<bar>tz\<bar> div 60 mod 60)"

text \<open>An explicit author wins; else both variables must be set; else the author stays \<open>None\<close>.\<close>

definition resolve_author :: "string option \<Rightarrow> (string \<Rightarrow> string option) \<Rightarrow> string option" where
  "resolve_author author env =
     (case author of
        Some a \<Rightarrow> Some a
      | None \<Rightarrow>
          (case (env ''GIT_AUTHOR_NAME'', env ''GIT_AUTHOR_EMAIL'') of
             (Some n, Some m) \<Rightarrow> Some (n @ '' <'' @ m @ ''>'')
           | _ \<Rightarrow> None))"

text \<open>\<open>f"{author}"\<close> of an optional string: \<open>None\<close> prints as \<open>None\<close>.\<close>

definition str_opt :: "string option \<Rightarrow> string" where
  "str_opt a = (case a of None \<Rightarrow> ''None'' | Some s \<Rightarrow> s)"

definition commit_lines :: "string \<Rightarrow> string \<Rightarrow> string option \<Rightarrow> string \<Rightarrow> int \<Rightarrow> int \<Rightarrow> string list" where
  "commit_lines tree message parent author now tz =
     [''tree '' @ tree]
     @ (case parent of None \<Rightarrow> [] | Some p \<Rightarrow> [''parent '' @ p])
     @ [''author '' @ author @ '' '' @ py_str now @ '' '' @ tz_string tz,
        ''committer '' @ author @ '' '' @ py_str now @ '' '' @ tz_string tz,
        CHR 0x0A # message @ [CHR 0x0A]]"

definition commit_payload ::
  "(string \<Rightarrow> string option) \<Rightarrow> int \<Rightarrow> int \<Rightarrow> string \<Rightarrow> string \<Rightarrow> string option \<Rightarrow> string option \<Rightarrow> bytes" where
  "commit_payload env now tz tree message parent author =
     encode (py_join (CHR 0x0A) (commit_lines tree message parent (str_opt (resolve_author author env)) now tz))"

definition commit_tree ::
  "sha1_fn \<Rightarrow> (string \<Rightarrow> string option) \<Rightarrow> int \<Rightarrow> int \<Rightarrow> obj_store \<Rightarrow> string \<Rightarrow> string \<Rightarrow>
   string option \<Rightarrow> string option \<Rightarrow> obj_store \<times> string" where
  "commit_tree h env now tz st tree message parent author =
     hash_object h (commit_payload env now tz tree message parent author) ''commit'' True st"

subsection \<open>Properties of \<open>write_tree\<close>\<close>

text \<open>
  Paths: a trailing slash changes neither the normal form nor the listing, and
  \<open>lstrip\<close> by a superset of a name's characters erases the name.
\<close>

lemma py_split_snoc_sep: "py_split s (xs @ [s]) = py_split s xs @ [[]]"
  by (induction xs) (auto simp: Let_def)

lemma norm_path_snoc_slash: "norm_path (d @ ''/'') = norm_path d"
  by (simp add: norm_path_def py_split_snoc_sep)

lemma glob_snoc_slash: "glob wt (d @ ''/'') = glob wt d"
  by (simp add: glob_def norm_path_snoc_slash)

lemma glob_keys: "q \<in> set (glob wt d) \<Longrightarrow> q \<in> fst ` set wt"
  by (auto simp: glob_def)

lemma lstrip_all: "set s \<subseteq> set cs \<Longrightarrow> lstrip cs s = []"
  by (induction s) (auto simp: lstrip_def)

lemma write_tree_stuck:
  "set (name e) \<subseteq> set d \<Longrightarrow> d \<noteq> [] \<Longrightarrow> name e \<notin> set (glob wt d) \<Longrightarrow>
     write_tree n h wt st [e] d = None"
proof (induction n arbitrary: d)
  case (Suc n)
  have part: "partition_index (glob wt d) d [e] [] [] = ([], [([], [e])])"
    using Suc.prems by (simp add: lstrip_all)
  have "write_tree n h wt st [e] (d @ ''/'') = None"
    using Suc.prems by (intro Suc.IH) (auto simp: glob_snoc_slash)
  then show ?case using part Suc.prems(2) by simp
qed simp

text \<open>
  C11: \<open>write_tree\<close> does not return when a staged top-level file is missing
  from the working tree: its entry is filed as a subtree named after itself, and
  every recursive call files it again under the same directory plus a slash, so
  no amount of fuel gives a result (Python raises \<open>RecursionError\<close>).
\<close>

theorem write_tree_missing_file:
  assumes "name e \<notin> fst ` set wt" "CHR ''/'' \<notin> set (name e)" "name e \<noteq> []"
  shows "write_tree n h wt st [e] [] = None"
proof (cases n)
  case (Suc m)
  have nf: "name e \<notin> set (glob wt d)" for d using assms(1) glob_keys by blast
  have part: "partition_index (glob wt []) [] [e] [] [] = ([], [(name e, [e])])"
    using nf assms(2) by (simp add: lstrip_def py_split_no_sep)
  have "write_tree m h wt st [e] (name e) = None"
    using nf assms(3) by (intro write_tree_stuck) auto
  then show ?thesis using part Suc by simp
qed simp

subsection \<open>The tree payload read back\<close>



lemma py_oct_nonneg: "0 \<le> m \<Longrightarrow> py_oct m = show_base 8 (nat m)"
  by (simp add: py_oct_def)

lemma show_base_8_chars:
  "c \<in> set (show_base 8 n) \<Longrightarrow> c \<noteq> CHR 0x00 \<and> c \<noteq> CHR '' ''"
proof -
  assume "c \<in> set (show_base 8 n)"
  then obtain d where "d < 8" "c = digit_char d" using show_base_digits [of 8 c n] by auto
  then have "(48 :: nat) \<le> of_char c" by (simp add: digit_char_def)
  then show ?thesis by auto
qed

definition tree_entry_ok :: "int \<times> string \<times> bytes \<Rightarrow> bool" where
  "tree_entry_ok x \<longleftrightarrow>
     (case x of (m, p, s) \<Rightarrow>
        0 \<le> m \<and> length s = 20 \<and> CHR 0x00 \<notin> set (last (py_split (CHR ''/'') p))
        \<and> CHR '' '' \<notin> set (last (py_split (CHR ''/'') p)))"

lemma read_tree_entry:
  assumes "tree_entry_ok (m, p, s)"
  shows "read_tree (tree_entry_bytes (m, p, s) @ rest) =
           map_sum id (Cons (int (dec_value (py_oct m)), last (py_split (CHR ''/'') p), hex s)) (read_tree rest)"
proof -
  let ?nm = "last (py_split (CHR ''/'') p)"
  let ?hd = "encode (py_oct m) @ 32 # encode ?nm"
  have m: "0 \<le> m" and s: "length s = 20" and nz: "CHR 0x00 \<notin> set ?nm" and nsp: "CHR '' '' \<notin> set ?nm"
    using assms by (simp_all add: tree_entry_ok_def)
  have oct: "py_oct m = show_base 8 (nat m)" using m by (rule py_oct_nonneg)
  have data: "tree_entry_bytes (m, p, s) @ rest = ?hd @ 0 # s @ rest"
    by (simp add: tree_entry_bytes_def)
  have z: "(0 :: byte) \<notin> set ?hd"
    using nz show_base_8_chars [of _ "nat m"] by (auto simp: oct zero_in_encode)
  have sp: "(32 :: byte) \<notin> set (encode (py_oct m))" "(32 :: byte) \<notin> set (encode ?nm)"
    using nsp show_base_8_chars [of _ "nat m"] by (auto simp: oct space_in_encode)
  have idx: "index_of 0 (?hd @ 0 # s @ rest) = Some (length ?hd)"
    using z by (rule index_of_append)
  have spl: "py_split 32 ?hd = [encode (py_oct m), encode ?nm]"
    using sp by (simp add: py_split_append_sep py_split_no_sep)
  have pm: "parse_int (py_oct m) = Some (int (dec_value (py_oct m)))"
    unfolding oct by (rule parse_int_show_base) simp_all
  show ?thesis
    unfolding data
    by (subst read_tree.simps, simp only: idx, simp add: spl pm s del: append_assoc)
qed

text \<open>
  C13: \<open>read_tree\<close> reads back the payload \<open>write_tree\<close> writes: each entry's
  last path segment and hex digest, and its mode as the decimal reading of the
  octal text (so the mode comes back changed unless it is below 8).
\<close>

theorem read_tree_tree_data:
  "list_all tree_entry_ok tc \<Longrightarrow>
     read_tree (tree_data tc) =
       Inr (map (\<lambda>(m, p, s). (int (dec_value (py_oct m)), last (py_split (CHR ''/'') p), hex s)) tc)"
proof (induction tc)
  case Nil
  then show ?case by (simp add: tree_data_def read_tree.simps)
next
  case (Cons x tc)
  obtain m p s where x: "x = (m, p, s)" by (cases x)
  with Cons show ?case by (simp add: tree_data_def read_tree_entry)
qed

subsection \<open>The commit payload read back\<close>

lemma py_split_encode:
  "py_split (word_of_nat (of_char c) :: byte) (encode s) = map encode (py_split c s)"
  by (induction s) (auto simp: Let_def encode_eq_byte_iff hd_map map_tl)

lemma py_split_join_snoc:
  "xs \<noteq> [] \<Longrightarrow> (\<forall>x \<in> set xs. s \<notin> set x) \<Longrightarrow>
     py_split s (py_join s (xs @ [s # m @ [s]])) = xs @ [] # py_split s m @ [[]]"
proof (induction s xs rule: py_join.induct)
  case (2 s x)
  then show ?case by (simp add: py_split_append_sep py_split_snoc_sep)
next
  case (3 s x y zs)
  then show ?case by (simp add: py_split_append_sep)
qed simp

definition plain_line :: "string \<Rightarrow> bool" where
  "plain_line l \<longleftrightarrow>
     \<not> (is_substr ''tree'' l \<or> is_substr ''parent'' l \<or> is_substr ''author'' l \<or> is_substr ''committer'' l)"

lemma plain_line_Nil [simp]: "plain_line []"
  by (simp add: plain_line_def)

lemma commit_parse_lines_plain:
  "list_all plain_line ls \<Longrightarrow> map_of res ''message'' = Some (PList ms) \<Longrightarrow>
     commit_parse_lines ls res = Inr (AList.update ''message'' (PList (ms @ ls)) res)"
proof (induction ls arbitrary: res ms)
  case Nil
  then show ?case by (simp add: update_triv)
next
  case (Cons l ls)
  have "map_of (AList.update ''message'' (PList (ms @ [l])) res) ''message'' = Some (PList (ms @ [l]))"
    by (simp add: update_conv')
  with Cons show ?case by (simp add: plain_line_def)
qed

lemma commit_parse_lines_header:
  "k \<in> {''tree'', ''parent'', ''author'', ''committer''} \<Longrightarrow>
     commit_parse_lines ((k @ '' '' @ v) # ls) res = commit_parse_lines ls (AList.update k (PStr v) res)"
  by (auto simp: is_substr_prefix)

lemma newline_byte: "(10 :: byte) = word_of_nat (of_char (CHR 0x0A))"
  by simp

lemma tz_string_chars: "c \<in> set (tz_string tz) \<Longrightarrow> c \<noteq> CHR 0x0A"
  by (auto simp: tz_string_def pad2_def Let_def dest: py_str_chars split: if_splits)

lemma hdr_tree: "commit_parse_lines ((''tree '' @ v) # ls) res = commit_parse_lines ls (AList.update ''tree'' (PStr v) res)"
  using commit_parse_lines_header [of "''tree''" v ls res] by simp

lemma hdr_parent: "commit_parse_lines ((''parent '' @ v) # ls) res = commit_parse_lines ls (AList.update ''parent'' (PStr v) res)"
  using commit_parse_lines_header [of "''parent''" v ls res] by simp

lemma hdr_author: "commit_parse_lines ((''author '' @ v) # ls) res = commit_parse_lines ls (AList.update ''author'' (PStr v) res)"
  using commit_parse_lines_header [of "''author''" v ls res] by simp

lemma hdr_committer: "commit_parse_lines ((''committer '' @ v) # ls) res = commit_parse_lines ls (AList.update ''committer'' (PStr v) res)"
  using commit_parse_lines_header [of "''committer''" v ls res] by simp

lemma commit_payload_lines:
  assumes "CHR 0x0A \<notin> set tree" "\<forall>p. parent = Some p \<longrightarrow> CHR 0x0A \<notin> set p"
    "CHR 0x0A \<notin> set (str_opt (resolve_author author env))"
  shows "map decode (py_split 10 (commit_payload env now tz tree message parent author))
    = [''tree '' @ tree] @ (case parent of None \<Rightarrow> [] | Some p \<Rightarrow> [''parent '' @ p])
      @ [''author '' @ str_opt (resolve_author author env) @ '' '' @ py_str now @ '' '' @ tz_string tz,
         ''committer '' @ str_opt (resolve_author author env) @ '' '' @ py_str now @ '' '' @ tz_string tz]
      @ [] # py_split (CHR 0x0A) message @ [[]]"
proof -
  let ?a = "str_opt (resolve_author author env) @ '' '' @ py_str now @ '' '' @ tz_string tz"
  let ?hdrs = "[''tree '' @ tree] @ (case parent of None \<Rightarrow> [] | Some p \<Rightarrow> [''parent '' @ p])
               @ [''author '' @ ?a, ''committer '' @ ?a]"
  have nl: "\<forall>x \<in> set ?hdrs. CHR 0x0A \<notin> set x"
    using assms(1-3) by (auto dest: py_str_chars tz_string_chars split: option.splits)
  have "commit_lines tree message parent (str_opt (resolve_author author env)) now tz
          = ?hdrs @ [CHR 0x0A # message @ [CHR 0x0A]]"
    by (simp add: commit_lines_def)
  moreover have "py_split (CHR 0x0A) (py_join (CHR 0x0A) (?hdrs @ [CHR 0x0A # message @ [CHR 0x0A]]))
                   = ?hdrs @ [] # py_split (CHR 0x0A) message @ [[]]"
    using nl by (intro py_split_join_snoc) simp_all
  ultimately show ?thesis
    by (simp only: commit_payload_def newline_byte py_split_encode map_map comp_def decode_encode map_idI) simp
qed

text \<open>
  C14: \<open>commit_parse\<close> reads back the payload \<open>commit_tree\<close> writes: tree, parent,
  author and committer, and the message lines (with the blank line before it and
  the empty line after it), when the header values hold no newline and no
  message line mentions a header keyword.
\<close>

theorem commit_parse_commit_payload:
  assumes "CHR 0x0A \<notin> set tree" "\<forall>p. parent = Some p \<longrightarrow> CHR 0x0A \<notin> set p"
    "CHR 0x0A \<notin> set (str_opt (resolve_author author env))"
    "list_all plain_line (py_split (CHR 0x0A) message)"
  shows "commit_parse (commit_payload env now tz tree message parent author) =
    Inr ([(''message'', PList ([] # py_split (CHR 0x0A) message @ [[]])), (''tree'', PStr tree)]
         @ (case parent of None \<Rightarrow> [] | Some p \<Rightarrow> [(''parent'', PStr p)])
         @ [(''author'', PStr (str_opt (resolve_author author env) @ '' '' @ py_str now @ '' '' @ tz_string tz)),
            (''committer'', PStr (str_opt (resolve_author author env) @ '' '' @ py_str now @ '' '' @ tz_string tz))])"
proof -
  let ?a = "str_opt (resolve_author author env) @ '' '' @ py_str now @ '' '' @ tz_string tz"
  let ?rest = "[] # py_split (CHR 0x0A) message @ [[]]"
  let ?hd = "[(''message'', PList []), (''tree'', PStr tree)] @ (case parent of None \<Rightarrow> [] | Some p \<Rightarrow> [(''parent'', PStr p)])
             @ [(''author'', PStr ?a), (''committer'', PStr ?a)]"
  have plain: "list_all plain_line ?rest" using assms(4) by simp
  have "commit_parse (commit_payload env now tz tree message parent author) = commit_parse_lines ?rest ?hd"
  proof (cases parent)
    case None
    then show ?thesis
      using commit_payload_lines [OF assms(1-3), of now tz message]
      by (simp only: commit_parse_def option.case append_Cons append_Nil hdr_tree hdr_author hdr_committer)
         (simp add: AList.update.simps)
  next
    case (Some p)
    then show ?thesis
      using commit_payload_lines [OF assms(1-3), of now tz message]
      by (simp only: commit_parse_def option.case append_Cons append_Nil hdr_tree hdr_parent hdr_author hdr_committer)
         (simp add: AList.update.simps)
  qed
  also have "\<dots> = Inr (AList.update ''message'' (PList ([] @ ?rest)) ?hd)"
    by (rule commit_parse_lines_plain [OF plain]) (simp split: option.splits)
  finally show ?thesis by (simp split: option.splits)
qed

text \<open>
  C15: a commit message line that mentions a header keyword is read as a header:
  a commit without parent whose message is \<open>parent p\<close> is parsed with parent
  \<open>p\<close> and an empty message.
\<close>

theorem commit_parse_message_parent:
  assumes "CHR 0x0A \<notin> set tree" "CHR 0x0A \<notin> set (str_opt (resolve_author author env))"
    "CHR 0x0A \<notin> set p"
  shows "commit_parse (commit_payload env now tz tree (''parent '' @ p) None author) =
    Inr [(''message'', PList [[], []]), (''tree'', PStr tree),
         (''author'', PStr (str_opt (resolve_author author env) @ '' '' @ py_str now @ '' '' @ tz_string tz)),
         (''committer'', PStr (str_opt (resolve_author author env) @ '' '' @ py_str now @ '' '' @ tz_string tz)),
         (''parent'', PStr p)]"
proof -
  have m: "py_split (CHR 0x0A) (''parent '' @ p) = [''parent '' @ p]"
    using assms(3) by (simp add: py_split_no_sep)
  have nil: "commit_parse_lines ([] # ls) res =
               (case map_of res ''message'' of Some (PList ms) \<Rightarrow> commit_parse_lines ls (AList.update ''message'' (PList (ms @ [[]])) res)
                | _ \<Rightarrow> Inl AttributeError)" for ls res
    by (simp add: is_substr_Nil)
  have none_parent: "\<forall>q. (None :: string option) = Some q \<longrightarrow> CHR 0x0A \<notin> set q" by simp
  let ?a = "str_opt (resolve_author author env) @ '' '' @ py_str now @ '' '' @ tz_string tz"
  have l: "map decode (py_split 10 (commit_payload env now tz tree (''parent '' @ p) None author)) =
             [''tree '' @ tree, ''author '' @ ?a, ''committer '' @ ?a, [], ''parent '' @ p, []]"
    using commit_payload_lines [OF assms(1) _ assms(2), of None now tz "''parent '' @ p"] none_parent
    unfolding m by (simp only: option.case append_Cons append_Nil simp_thms)
  show ?thesis
    by (simp only: commit_parse_def l hdr_tree hdr_author hdr_committer hdr_parent nil) simp
qed

subsection \<open>Examples\<close>

definition sample_entry :: index_entry where
  "sample_entry = entry_of_stat sample_stat (replicate 20 1) ''a.txt''"

theorem write_tree_missing_file_witness:
  "name sample_entry \<notin> fst ` set ([] :: worktree) \<and> CHR ''/'' \<notin> set (name sample_entry)
   \<and> name sample_entry \<noteq> [] \<and> write_tree 3 sample_sha1 [] [] [sample_entry] [] = None"
  using write_tree_missing_file [of sample_entry "[]" 3 sample_sha1 "[]"]
  by (simp add: sample_entry_def entry_of_stat_def)


theorem read_tree_tree_data_witness:
  "list_all tree_entry_ok [(33188, ''a.txt'', replicate 20 1)]
   \<and> read_tree (tree_data [(33188, ''a.txt'', replicate 20 1)]) = Inr [(100644, ''a.txt'', hex (replicate 20 1))]"
proof -
  have ok: "list_all tree_entry_ok [(33188 :: int, ''a.txt'', replicate 20 (1 :: byte))]"
    by (simp add: tree_entry_ok_def)
  show ?thesis
    using ok read_tree_tree_data [OF ok] by (simp add: py_oct_def show_base_eval dec_value_def)
qed

theorem commit_parse_commit_payload_witness:
  "CHR 0x0A \<notin> set ''t''
   \<and> CHR 0x0A \<notin> set (str_opt (resolve_author (Some ''A'') (\<lambda>_. None)))
   \<and> list_all plain_line (py_split (CHR 0x0A) ''hi'')
   \<and> commit_parse (commit_payload (\<lambda>_. None) 0 0 ''t'' ''hi'' None (Some ''A'')) =
       Inr [(''message'', PList [[], ''hi'', []]), (''tree'', PStr ''t''),
            (''author'', PStr (''A 0 '' @ tz_string 0)), (''committer'', PStr (''A 0 '' @ tz_string 0))]"
proof -
  have a: "CHR 0x0A \<notin> set (str_opt (resolve_author (Some ''A'') (\<lambda>_. None)))"
    by (simp add: str_opt_def resolve_author_def)
  have p: "list_all plain_line (py_split (CHR 0x0A) ''hi'')"
    by (simp add: plain_line_def)
  show ?thesis
    using a p commit_parse_commit_payload [of "''t''" None "Some ''A''" "\<lambda>_. None" "''hi''" 0 0]
    by (simp add: str_opt_def resolve_author_def py_str_def show_base_eval)
qed

theorem commit_parse_message_parent_witness:
  "CHR 0x0A \<notin> set ''t'' \<and> CHR 0x0A \<notin> set (str_opt (resolve_author (Some ''A'') (\<lambda>_. None)))
   \<and> CHR 0x0A \<notin> set ''x''
   \<and> commit_parse (commit_payload (\<lambda>_. None) 0 0 ''t'' ''parent x'' None (Some ''A'')) =
       Inr [(''message'', PList [[], []]), (''tree'', PStr ''t''),
            (''author'', PStr (''A 0 '' @ tz_string 0)), (''committer'', PStr (''A 0 '' @ tz_string 0)),
            (''parent'', PStr ''x'')]"
  using commit_parse_message_parent [of "''t''" "Some ''A''" "\<lambda>_. None" "''x''" 0 0]
  by (simp add: str_opt_def resolve_author_def py_str_def show_base_eval)

end
