(* ===== verification/Refs.thy ===== *)
theory Refs
  imports Repo
begin

text \<open>
  References of \<open>src/homework04/pyvcs/refs.py\<close>.  \<open>HEAD\<close> and the ref files are
  the text files \<^const>\<open>meta\<close> of the repository, keyed by their normalised path
  below \<open>.pyvcs\<close>; the directories \<open>repo_create\<close> makes (and the object buckets)
  are \<open>pyvcs_dirs\<close>, so opening one of them is \<open>IsADirectoryError\<close>.
  \<open>ref_resolve\<close> and \<open>resolve_head\<close> call each other and carry fuel: \<open>None\<close> is
  Python's \<open>RecursionError\<close>.
\<close>

definition pyvcs_dirs :: "repo \<Rightarrow> string list" where
  "pyvcs_dirs r = [''.'', ''refs'', ''refs/heads'', ''refs/tags'', ''objects'']
                  @ map (\<lambda>((d, f), c). ''objects/'' @ d) (objects r)"

text \<open>\<open>(gitdir / name).open("w").write(value)\<close>: the parent directory must exist.\<close>

definition write_text :: "repo \<Rightarrow> string \<Rightarrow> string \<Rightarrow> repo result" where
  "write_text r name value =
     (let p = norm_path name in
      if p \<in> set (pyvcs_dirs r) then Inl IsADirectoryError
      else if parent_path p \<notin> set (pyvcs_dirs r) then Inl FileNotFoundError
      else Inr (r\<lparr>meta := AList.update p value (meta r)\<rparr>))"

definition update_ref :: "repo \<Rightarrow> string \<Rightarrow> string \<Rightarrow> repo result" where
  "update_ref r ref new_value = write_text r ref new_value"

definition symbolic_ref :: "repo \<Rightarrow> string \<Rightarrow> string \<Rightarrow> repo result" where
  "symbolic_ref r name ref = write_text r name ref"

text \<open>\<open>f.read().strip()\<close> of \<open>gitdir / name\<close>, when the path exists.\<close>

definition read_text :: "repo \<Rightarrow> string \<Rightarrow> string option result" where
  "read_text r name =
     (let p = norm_path name in
      if p \<in> set (pyvcs_dirs r) then Inl IsADirectoryError
      else Inr (map_option py_strip (map_of (meta r) p)))"

text \<open>\<open>get_ref\<close>: the second word of \<open>HEAD\<close>, or the empty string unless it has exactly two.\<close>

definition get_ref :: "repo \<Rightarrow> string result" where
  "get_ref r =
     (case map_of (meta r) ''HEAD'' of
        None \<Rightarrow> Inl FileNotFoundError
      | Some s \<Rightarrow> (let data = py_split_ws (py_strip s) in Inr (if length data = 2 then data ! 1 else '''')))"

definition is_detached :: "repo \<Rightarrow> bool result" where
  "is_detached r = map_sum id (\<lambda>x. x = '''') (get_ref r)"

fun ref_resolve :: "nat \<Rightarrow> repo \<Rightarrow> string \<Rightarrow> string option result option"
and resolve_head :: "nat \<Rightarrow> repo \<Rightarrow> string option result option" where
  "ref_resolve 0 r refname = None"
| "ref_resolve (Suc n) r refname =
     (if refname = ''HEAD'' then
        (case is_detached r of
           Inl e \<Rightarrow> Some (Inl e)
         | Inr False \<Rightarrow> resolve_head n r
         | Inr True \<Rightarrow> Some (read_text r refname))
      else Some (read_text r refname))"
| "resolve_head 0 r = None"
| "resolve_head (Suc n) r =
     (case map_of (meta r) ''HEAD'' of
        None \<Rightarrow> Some (Inl FileNotFoundError)
      | Some _ \<Rightarrow> (case get_ref r of Inl e \<Rightarrow> Some (Inl e) | Inr ref \<Rightarrow> ref_resolve n r ref))"

subsection \<open>Resolution of \<open>HEAD\<close>\<close>

lemma head_self_loop:
  assumes "get_ref r = Inr ''HEAD''" "map_of (meta r) ''HEAD'' = Some s"
  shows "ref_resolve n r ''HEAD'' = None \<and> resolve_head n r = None"
proof (induction n)
  case (Suc n)
  have "is_detached r = Inr False" using assms(1) by (simp add: is_detached_def)
  then show ?case using Suc assms by simp
qed simp

lemma norm_path_Nil [simp]: "norm_path [] = ''.''"
  by (simp add: norm_path_def)

lemma resolve_head_detached:
  "map_of (meta r) ''HEAD'' = Some s \<Longrightarrow> get_ref r = Inr [] \<Longrightarrow>
     resolve_head (Suc (Suc n)) r = Some (Inl IsADirectoryError)"
  by (simp add: read_text_def pyvcs_dirs_def)

lemma resolve_head_symbolic:
  "map_of (meta r) ''HEAD'' = Some s \<Longrightarrow> get_ref r = Inr b \<Longrightarrow> b \<noteq> ''HEAD'' \<Longrightarrow>
     resolve_head (Suc (Suc n)) r = Some (read_text r b)"
  by simp

end
