(* ===== verification/Porcelain.thy ===== *)
theory Porcelain
  imports Tree Refs
begin

text \<open>
  The commands of \<open>src/homework04/pyvcs/porcelain.py\<close>: \<open>add\<close>, \<open>commit\<close> and
  \<open>checkout\<close>, composed from the index, tree, refs and object-store models.  The
  working directory is the repository's working tree and \<open>gitdir.parent\<close> is the
  path \<open>workdir\<close>.  Every loop that may not end carries fuel: \<open>add\<close> one unit per
  directory level, \<open>commit\<close> the fuel of \<open>write_tree\<close> and \<open>resolve_head\<close>,
  \<open>checkout\<close> one unit per commit of the parent chain and per tree it unpacks.
  A command that raises returns the exception together with the state it leaves:
  files already written stay written.
\<close>

subsection \<open>\<open>add\<close>\<close>

text \<open>A directory is replaced by its children (\<open>path.glob("*")\<close>); a path that is
  not a directory, existing or not, is staged with \<open>update_index\<close>.\<close>

fun add :: "nat \<Rightarrow> sha1_fn \<Rightarrow> string list \<Rightarrow> repo \<Rightarrow> (unit result \<times> repo) option" where
  "add 0 h ps r = None"
| "add (Suc n) h [] r = Some (Inr (), r)"
| "add (Suc n) h (p # ps) r =
     (if map_of (worktree r) p = Some WDir then
        (case add n h (glob (worktree r) p) r of
           None \<Rightarrow> None
         | Some (Inl e, r') \<Rightarrow> Some (Inl e, r')
         | Some (Inr (), r') \<Rightarrow> add (Suc n) h ps r')
      else
        (case update_index h [p] True r of
           (Inl e, r') \<Rightarrow> Some (Inl e, r')
         | (Inr (), r') \<Rightarrow> add (Suc n) h ps r'))"

subsection \<open>\<open>commit\<close>\<close>

text \<open>The tree of the index, the commit \<open>HEAD\<close> resolves to as parent, and the
  commit object; the function returns the commit's digest and updates no ref.\<close>

definition commit ::
  "nat \<Rightarrow> sha1_fn \<Rightarrow> (string \<Rightarrow> string option) \<Rightarrow> int \<Rightarrow> int \<Rightarrow> string \<Rightarrow> repo \<Rightarrow> string \<Rightarrow>
   string option \<Rightarrow> (string result \<times> repo) option" where
  "commit n h env now tz workdir r message author =
     (case read_index (index_file r) of
        Inl e \<Rightarrow> Some (Inl e, r)
      | Inr es \<Rightarrow>
          (case write_tree n h (worktree r) (objects r) es workdir of
             None \<Rightarrow> None
           | Some (st, tree) \<Rightarrow>
               (let r1 = r\<lparr>objects := st\<rparr> in
                case resolve_head n r1 of
                  None \<Rightarrow> None
                | Some (Inl e) \<Rightarrow> Some (Inl e, r1)
                | Some (Inr parent) \<Rightarrow>
                    (case commit_tree h env now tz st tree message parent author of
                       (st', sha) \<Rightarrow> Some (Inr sha, r1\<lparr>objects := st'\<rparr>)))))"

subsection \<open>\<open>checkout\<close>\<close>

text \<open>\<open>int(str(mode), 8)\<close>: an optional minus sign and octal digits, else \<open>ValueError\<close>.\<close>

fun oct_acc :: "nat \<Rightarrow> string \<Rightarrow> nat option" where
  "oct_acc a [] = Some a"
| "oct_acc a (c # cs) =
     (let d = of_char c in if 48 \<le> d \<and> d \<le> (55 :: nat) then oct_acc (8 * a + (d - 48)) cs else None)"

definition int_base8 :: "string \<Rightarrow> int result" where
  "int_base8 s =
     (case s of
        [] \<Rightarrow> Inl ValueError
      | c # cs \<Rightarrow>
          (if c = CHR ''-'' then
             (if cs = [] then Inl ValueError
              else (case oct_acc 0 cs of None \<Rightarrow> Inl ValueError | Some v \<Rightarrow> Inr (- int v)))
           else (case oct_acc 0 s of None \<Rightarrow> Inl ValueError | Some v \<Rightarrow> Inr (int v))))"

text \<open>\<open>Path.chmod(m)\<close> on the regular file just written: the C \<open>int\<close> argument keeps
  the permission bits of \<open>m\<close>; outside the C \<open>int\<close> range it raises \<open>OverflowError\<close>.\<close>

definition chmod_mode :: "int \<Rightarrow> int result" where
  "chmod_mode m =
     (if m < - (2 ^ 31) \<or> 2 ^ 31 \<le> m then Inl (PyException ''OverflowError'')
      else Inr (32768 + m mod 4096))"

type_synonym tree_work = "((int \<times> string \<times> string) list \<times> string) list"

definition is_file :: "worktree \<Rightarrow> string \<Rightarrow> bool" where
  "is_file wt p = (case map_of wt p of Some (WFile _ _) \<Rightarrow> True | _ \<Rightarrow> False)"

text \<open>
  The body of \<open>for file_data in tree_content\<close>: every entry's object is read; a
  blob is written (with a fresh file's metadata \<open>fresh p\<close> and the mode from the
  entry) only where nothing exists; a subtree gets its directory if absent and is
  pushed on the work list.  Below an existing regular file nothing can be created
  (\<open>NotADirectoryError\<close>).
\<close>

fun materialize ::
  "obj_store \<Rightarrow> (string \<Rightarrow> file_stat) \<Rightarrow> string \<Rightarrow> (int \<times> string \<times> string) list \<Rightarrow> worktree \<Rightarrow>
   tree_work \<Rightarrow> tree_work result \<times> worktree" where
  "materialize st fresh path [] wt trees = (Inr trees, wt)"
| "materialize st fresh path ((m, nm, sha) # es) wt trees =
     (case read_object sha st of
        Inl e \<Rightarrow> (Inl e, wt)
      | Inr (fmt, data) \<Rightarrow>
          (let p = norm_path (path @ ''/'' @ nm) in
           if fmt \<noteq> ''tree'' then
             (if map_of wt p \<noteq> None then materialize st fresh path es wt trees
              else if is_file wt path then (Inl NotADirectoryError, wt)
              else
                (case int_base8 (py_str m) of
                   Inl e \<Rightarrow> (Inl e, wt @ [(p, WFile data (fresh p))])
                 | Inr v \<Rightarrow>
                     (case chmod_mode v of
                        Inl e \<Rightarrow> (Inl e, wt @ [(p, WFile data (fresh p))])
                      | Inr md \<Rightarrow>
                          materialize st fresh path es (wt @ [(p, WFile data ((fresh p)\<lparr>st_mode := md\<rparr>))]) trees)))
           else
             (if map_of wt p = None \<and> is_file wt path then (Inl NotADirectoryError, wt)
              else
                (let wt' = (if map_of wt p = None then wt @ [(p, WDir)] else wt) in
                 case read_tree data of
                   Inl e \<Rightarrow> (Inl e, wt')
                 | Inr tc \<Rightarrow> materialize st fresh path es wt' (trees @ [(tc, p)])))))"

text \<open>\<open>while trees: trees.pop()\<close>: the last tree pushed is unpacked first.\<close>

fun checkout_trees ::
  "nat \<Rightarrow> obj_store \<Rightarrow> (string \<Rightarrow> file_stat) \<Rightarrow> tree_work \<Rightarrow> worktree \<Rightarrow> (unit result \<times> worktree) option" where
  "checkout_trees 0 st fresh trees wt = None"
| "checkout_trees (Suc n) st fresh [] wt = Some (Inr (), wt)"
| "checkout_trees (Suc n) st fresh (t # ts) wt =
     (case materialize st fresh (snd (last (t # ts))) (fst (last (t # ts))) wt (butlast (t # ts)) of
        (Inl e, wt') \<Rightarrow> Some (Inl e, wt')
      | (Inr trees', wt') \<Rightarrow> checkout_trees n st fresh trees' wt')"

text \<open>\<open>commit_data["tree"]\<close> and \<open>commit_data["parent"]\<close>: a missing key is
  \<open>KeyError\<close>; the message list used as a digest is a \<open>TypeError\<close> of the path join.\<close>

definition commit_key :: "(string \<times> pyval) list \<Rightarrow> string \<Rightarrow> string result" where
  "commit_key cd k =
     (case map_of cd k of None \<Rightarrow> Inl KeyError | Some (PStr v) \<Rightarrow> Inr v | Some (PList _) \<Rightarrow> Inl TypeError)"

text \<open>The \<open>while doing\<close> loop over the parent chain, starting at \<open>workdir\<close>.\<close>

fun checkout_chain ::
  "nat \<Rightarrow> obj_store \<Rightarrow> (string \<Rightarrow> file_stat) \<Rightarrow> string \<Rightarrow> (string \<times> pyval) list \<Rightarrow> worktree \<Rightarrow>
   (unit result \<times> worktree) option" where
  "checkout_chain 0 st fresh workdir cd wt = None"
| "checkout_chain (Suc n) st fresh workdir cd wt =
     (case rbind (commit_key cd ''tree'') (\<lambda>t. rbind (read_object t st) (\<lambda>(_, data). read_tree data)) of
        Inl e \<Rightarrow> Some (Inl e, wt)
      | Inr tc \<Rightarrow>
          (case checkout_trees n st fresh [(tc, workdir)] wt of
             None \<Rightarrow> None
           | Some (Inl e, wt') \<Rightarrow> Some (Inl e, wt')
           | Some (Inr (), wt') \<Rightarrow>
               (if map_of cd ''parent'' = None then Some (Inr (), wt')
                else
                  (case rbind (commit_key cd ''parent'') (\<lambda>p. rbind (read_object p st) (\<lambda>(_, raw). commit_parse raw)) of
                     Inl e \<Rightarrow> Some (Inl e, wt')
                   | Inr cd' \<Rightarrow> checkout_chain n st fresh workdir cd' wt'))))"

text \<open>The first loop: \<open>os.remove\<close> of every staged path that exists (a directory
  raises \<open>IsADirectoryError\<close>).\<close>

fun remove_files :: "string list \<Rightarrow> worktree \<Rightarrow> unit result \<times> worktree" where
  "remove_files [] wt = (Inr (), wt)"
| "remove_files (p # ps) wt =
     (case map_of wt p of
        None \<Rightarrow> remove_files ps wt
      | Some WDir \<Rightarrow> (Inl IsADirectoryError, wt)
      | Some (WFile _ _) \<Rightarrow> remove_files ps (filter (\<lambda>(q, _). q \<noteq> p) wt))"

text \<open>The last loop: \<open>os.removedirs\<close> of each directory directly below \<open>workdir\<close>
  other than \<open>.pyvcs\<close>; it removes the directory when it is empty and otherwise
  raises \<open>OSError\<close>, which is skipped.\<close>

definition remove_empty_dirs :: "string \<Rightarrow> worktree \<Rightarrow> worktree" where
  "remove_empty_dirs workdir wt =
     filter (\<lambda>(q, n). \<not> (n = WDir \<and> q \<in> set (glob wt workdir) \<and> q \<noteq> git_dir \<and> glob wt q = [])) wt"

definition checkout ::
  "nat \<Rightarrow> (string \<Rightarrow> file_stat) \<Rightarrow> string \<Rightarrow> repo \<Rightarrow> string \<Rightarrow> (unit result \<times> repo) option" where
  "checkout n fresh workdir r obj_name =
     (case read_index (index_file r) of
        Inl e \<Rightarrow> Some (Inl e, r)
      | Inr es \<Rightarrow>
          (case remove_files (map name es) (worktree r) of
             (Inl e, wt) \<Rightarrow> Some (Inl e, r\<lparr>worktree := wt\<rparr>)
           | (Inr (), wt) \<Rightarrow>
               (case rbind (read_object obj_name (objects r)) (\<lambda>(_, raw). commit_parse raw) of
                  Inl e \<Rightarrow> Some (Inl e, r\<lparr>worktree := wt\<rparr>)
                | Inr cd \<Rightarrow>
                    (case checkout_chain n (objects r) fresh workdir cd wt of
                       None \<Rightarrow> None
                     | Some (Inl e, wt') \<Rightarrow> Some (Inl e, r\<lparr>worktree := wt'\<rparr>)
                     | Some (Inr (), wt') \<Rightarrow> Some (Inr (), r\<lparr>worktree := remove_empty_dirs workdir wt'\<rparr>)))))"

subsection \<open>Sample repositories\<close>

definition zero_sha1 :: sha1_fn where
  "zero_sha1 x = replicate 20 0"

definition empty_repo :: repo where
  "empty_repo = (case repo_create ''.'' True [] of Inr r \<Rightarrow> r | Inl _ \<Rightarrow> undefined)"

definition demo_stat :: file_stat where
  "demo_stat = \<lparr>st_ctime = 1, st_mtime = 1, st_dev = 1, st_ino = 1, st_mode = 33188, st_uid = 0, st_gid = 0, st_size = 1\<rparr>"

subsection \<open>What the commands keep\<close>

lemma map_of_filter_keep:
  "map_of xs p = Some v \<Longrightarrow> P (p, v) \<Longrightarrow> map_of (filter P xs) p = Some v"
  by (induction xs) (auto split: if_splits)

lemma map_of_snoc_keep:
  "map_of xs p = Some v \<Longrightarrow> map_of (xs @ [y]) p = Some v"
  by (simp add: map_of_append)

lemma remove_files_keeps:
  "remove_files ps wt = (res, wt') \<Longrightarrow> p \<notin> set ps \<Longrightarrow> map_of wt p = Some v \<Longrightarrow> map_of wt' p = Some v"
proof (induction ps wt rule: remove_files.induct)
  case (2 q ps wt)
  then show ?case
    by (auto simp: map_of_filter_keep split: option.splits wnode.splits)
qed simp

lemma materialize_keeps:
  "materialize st fresh path es wt trees = (res, wt') \<Longrightarrow> map_of wt p = Some v \<Longrightarrow> map_of wt' p = Some v"
proof (induction st fresh path es wt trees arbitrary: res rule: materialize.induct)
  case (2 st fresh path m nm sha es wt trees)
  then show ?case
    by (auto simp: Let_def map_of_snoc_keep split: sum.splits prod.splits if_splits)
qed simp

lemma checkout_trees_keeps:
  "checkout_trees n st fresh trees wt = Some (res, wt') \<Longrightarrow> map_of wt p = Some v \<Longrightarrow> map_of wt' p = Some v"
proof (induction n arbitrary: trees wt)
  case (Suc n)
  show ?case
  proof (cases trees)
    case Nil
    then show ?thesis using Suc.prems by simp
  next
    case (Cons t ts)
    obtain mr wt1 where m: "materialize st fresh (snd (last trees)) (fst (last trees)) wt (butlast trees) = (mr, wt1)"
      by fastforce
    have k: "map_of wt1 p = Some v" by (rule materialize_keeps [OF m Suc.prems(2)])
    show ?thesis
    proof (cases mr)
      case (Inl e)
      then show ?thesis using Suc.prems(1) Cons m k by simp
    next
      case (Inr tr)
      then have "checkout_trees n st fresh tr wt1 = Some (res, wt')" using Suc.prems(1) Cons m by simp
      then show ?thesis using Suc.IH k by blast
    qed
  qed
qed simp

lemma checkout_chain_keeps:
  "checkout_chain n st fresh workdir cd wt = Some (res, wt') \<Longrightarrow> map_of wt p = Some v \<Longrightarrow> map_of wt' p = Some v"
proof (induction n arbitrary: cd wt)
  case (Suc n)
  note prems = Suc.prems
  show ?case
  proof (cases "rbind (commit_key cd ''tree'') (\<lambda>t. rbind (read_object t st) (\<lambda>(_, data). read_tree data))")
    case (Inl e)
    then show ?thesis using prems by simp
  next
    case (Inr tc)
    show ?thesis
    proof (cases "checkout_trees n st fresh [(tc, workdir)] wt")
      case None
      then show ?thesis using prems Inr by simp
    next
      case (Some tr)
      obtain tres wt1 where tr: "tr = (tres, wt1)" by fastforce
      have k: "map_of wt1 p = Some v" using checkout_trees_keeps Some tr prems(2) by blast
      show ?thesis
      proof (cases tres)
        case (Inl e)
        then show ?thesis using prems Inr Some tr k by simp
      next
        case (Inr u)
        show ?thesis
        proof (cases "map_of cd ''parent'' = None")
          case True
          then show ?thesis using prems \<open>rbind _ _ = Inr tc\<close> Some tr Inr k by (simp split: unit.splits)
        next
          case False
          show ?thesis
          proof (cases "rbind (commit_key cd ''parent'') (\<lambda>p. rbind (read_object p st) (\<lambda>(_, raw). commit_parse raw))")
            case (Inl e)
            then show ?thesis using prems \<open>rbind _ _ = Inr tc\<close> Some tr Inr False k by (simp split: unit.splits)
          next
            case (Inr cd')
            then have "checkout_chain n st fresh workdir cd' wt1 = Some (res, wt')"
              using prems \<open>rbind (commit_key cd ''tree'') _ = Inr tc\<close> Some tr \<open>tres = Inr u\<close> False by (simp split: unit.splits)
            then show ?thesis using Suc.IH k by blast
          qed
        qed
      qed
    qed
  qed
qed simp

lemma remove_empty_dirs_keeps_file:
  "map_of wt p = Some (WFile d s) \<Longrightarrow> map_of (remove_empty_dirs workdir wt) p = Some (WFile d s)"
  unfolding remove_empty_dirs_def by (rule map_of_filter_keep) auto

text \<open>C40: \<open>checkout\<close> never overwrites or removes a file that is not staged: a
  file of the working tree whose path is not in the index is still there, with the
  same content and metadata, whatever \<open>checkout\<close> returns, an exception included.
  Blobs are written only where nothing exists, directories created only where
  absent, and only staged files and empty top-level directories are removed.\<close>

theorem checkout_keeps_unstaged:
  assumes "checkout n fresh workdir r obj_name = Some (res, r')" "read_index (index_file r) = Inr es"
    "p \<notin> name ` set es" "map_of (worktree r) p = Some (WFile d s)"
  shows "map_of (worktree r') p = Some (WFile d s)"
proof -
  obtain rres wt where rf: "remove_files (map name es) (worktree r) = (rres, wt)" by fastforce
  have w: "map_of wt p = Some (WFile d s)" using remove_files_keeps [OF rf] assms(3,4) by auto
  show ?thesis
  proof (cases rres)
    case (Inl e)
    then show ?thesis using assms(1,2) rf w by (auto simp: checkout_def)
  next
    case (Inr u)
    show ?thesis
    proof (cases "rbind (read_object obj_name (objects r)) (\<lambda>(_, raw). commit_parse raw)")
      case (Inl e)
      then show ?thesis using assms(1,2) rf w \<open>rres = Inr u\<close> by (auto simp: checkout_def split: unit.splits)
    next
      case (Inr cd)
      show ?thesis
      proof (cases "checkout_chain n (objects r) fresh workdir cd wt")
        case None
        then show ?thesis using assms(1,2) rf \<open>rres = Inr u\<close> Inr by (simp add: checkout_def split: unit.splits)
      next
        case (Some cr)
        obtain cres wt' where cr: "cr = (cres, wt')" by fastforce
        have k: "map_of wt' p = Some (WFile d s)" using checkout_chain_keeps Some cr w by blast
        then show ?thesis using assms(1,2) rf \<open>rres = Inr u\<close> Inr Some cr
          by (cases cres) (auto simp: checkout_def remove_empty_dirs_keeps_file split: unit.splits)
      qed
    qed
  qed
qed

text \<open>C39: \<open>commit\<close> changes no ref: \<open>HEAD\<close> and every ref file, the index and
  the working tree are as before, so the branch is not advanced and the next commit
  records the same parent as this one.\<close>

theorem commit_keeps_refs:
  assumes "commit n h env now tz workdir r message author = Some (res, r')"
  shows "meta r' = meta r \<and> index_file r' = index_file r \<and> worktree r' = worktree r"
proof (cases "read_index (index_file r)")
  case (Inl e)
  then show ?thesis using assms by (simp add: commit_def)
next
  case (Inr es)
  then obtain st tree where w: "write_tree n h (worktree r) (objects r) es workdir = Some (st, tree)"
    using assms by (auto simp: commit_def split: option.splits)
  show ?thesis
  proof (cases "resolve_head n (r\<lparr>objects := st\<rparr>)")
    case None
    then show ?thesis using assms Inr w by (simp add: commit_def)
  next
    case (Some pr)
    then show ?thesis using assms Inr w
      by (cases pr) (auto simp: commit_def split: prod.splits)
  qed
qed

subsection \<open>Examples\<close>

theorem commit_keeps_refs_witness:
  "commit 3 zero_sha1 (\<lambda>_. None) 0 0 ''.'' empty_repo ''m'' None \<noteq> None
   \<and> meta (snd (the (commit 3 zero_sha1 (\<lambda>_. None) 0 0 ''.'' empty_repo ''m'' None))) = meta empty_repo"
proof -
  have ne: "commit 3 zero_sha1 (\<lambda>_. None) 0 0 ''.'' empty_repo ''m'' None \<noteq> None" by code_simp
  then obtain res r' where c: "commit 3 zero_sha1 (\<lambda>_. None) 0 0 ''.'' empty_repo ''m'' None = Some (res, r')"
    by fastforce
  then show ?thesis using commit_keeps_refs [OF c] ne by simp
qed

theorem checkout_keeps_unstaged_witness:
  "checkout 2 (\<lambda>_. demo_stat) ''.'' (empty_repo\<lparr>worktree := [(''keep.txt'', WFile [107] demo_stat)]\<rparr>) ''abcd''
     = Some (Inl FileNotFoundError, empty_repo\<lparr>worktree := [(''keep.txt'', WFile [107] demo_stat)]\<rparr>)
   \<and> map_of (worktree (empty_repo\<lparr>worktree := [(''keep.txt'', WFile [107] demo_stat)]\<rparr>)) ''keep.txt''
       = Some (WFile [107] demo_stat)"
proof -
  let ?r = "empty_repo\<lparr>worktree := [(''keep.txt'', WFile [107] demo_stat)]\<rparr>"
  have c: "checkout 2 (\<lambda>_. demo_stat) ''.'' ?r ''abcd'' = Some (Inl FileNotFoundError, ?r)"
    by (simp add: checkout_def empty_repo_def repo_create_def read_index_def read_object_def obj_key_def split: unit.splits)
  have ri: "read_index (index_file ?r) = Inr []" by (simp add: empty_repo_def repo_create_def read_index_def)
  show ?thesis using checkout_keeps_unstaged [OF c ri, of "''keep.txt''"] c by simp
qed

end
