(* ===== verification/Ciphers.thy ===== *)
theory Ciphers
  imports Prelude
begin

text \<open>
  The Caesar and Vigenere ciphers of \<open>src/homework01\<close> (\<open>caesar.py\<close>,
  \<open>vigenere.py\<close>).  Text is a \<^typ>\<open>string\<close> whose characters are the Latin-1
  code points (\<open>ord\<close> is \<^term>\<open>of_char\<close>); \<open>str.isupper\<close> and \<open>str.islower\<close> of one
  character are Python's Unicode predicates restricted to that range, so the
  accented Latin-1 letters count as letters exactly as they do in Python.
  \<open>chr\<close> raises \<open>ValueError\<close> below 0; a code of 256 or more is a character
  outside the model's alphabet and is returned as an error value of its own
  (it arises only in \<open>decrypt_caesar\<close> with a shift below -34).
\<close>

subsection \<open>Python's character built-ins\<close>

definition py_ord :: "char \<Rightarrow> int" where
  "py_ord c = int (of_char c)"

definition py_isupper :: "char \<Rightarrow> bool" where
  "py_isupper c \<longleftrightarrow> (let n = of_char c :: nat in (65 \<le> n \<and> n \<le> 90) \<or> (192 \<le> n \<and> n \<le> 222 \<and> n \<noteq> 215))"

definition py_islower :: "char \<Rightarrow> bool" where
  "py_islower c \<longleftrightarrow>
     (let n = of_char c :: nat in
        (97 \<le> n \<and> n \<le> 122) \<or> n = 170 \<or> n = 181 \<or> n = 186 \<or> (223 \<le> n \<and> n \<noteq> 247))"

definition py_chr :: "int \<Rightarrow> char result" where
  "py_chr code =
     (if code < 0 \<or> 1114111 < code then Inl ValueError
      else if code < 256 then Inr (char_of (nat code))
      else Inl (PyException ''chr: code point outside Latin-1''))"

subsection \<open>\<open>caesar.py\<close>\<close>

text \<open>One step of \<open>encrypt_caesar\<close>: the code lies in \<open>A..Z\<close> or \<open>a..z\<close>, so \<open>chr\<close> succeeds.\<close>

definition caesar_char :: "int \<Rightarrow> char \<Rightarrow> char" where
  "caesar_char shift i =
     (if py_isupper i then char_of (nat ((py_ord i - py_ord CHR ''A'' + shift) mod 26 + py_ord CHR ''A''))
      else if py_islower i then char_of (nat ((py_ord i - py_ord CHR ''a'' + shift) mod 26 + py_ord CHR ''a''))
      else i)"

definition encrypt_caesar :: "string \<Rightarrow> int \<Rightarrow> string" where
  "encrypt_caesar plaintext shift = map (caesar_char shift) plaintext"

definition uncaesar_code :: "int \<Rightarrow> int \<Rightarrow> int" where
  "uncaesar_code shift k = (if k < shift then 25 - ((shift - 1) - k) else k - shift)"

definition uncaesar_char :: "int \<Rightarrow> char \<Rightarrow> char result" where
  "uncaesar_char shift i =
     (if py_isupper i then py_chr (uncaesar_code shift (py_ord i - py_ord CHR ''A'') + py_ord CHR ''A'')
      else if py_islower i then py_chr (uncaesar_code shift (py_ord i - py_ord CHR ''a'') + py_ord CHR ''a'')
      else Inr i)"

definition decrypt_caesar :: "string \<Rightarrow> int \<Rightarrow> string result" where
  "decrypt_caesar ciphertext shift = seq_results (map (uncaesar_char shift) ciphertext)"

text \<open>
  \<open>caesar_breaker\<close>: the dictionary is a Python set, iterated in an order the
  model takes as the list \<open>dictionary\<close>.  The inner loop tries the shifts
  \<open>range(25)\<close>; after the outer loop \<open>best_shift += shift\<close> reads the loop
  variable, which is unbound (\<open>UnboundLocalError\<close>) when the dictionary is empty
  and holds the last shift tried, 24, otherwise.
\<close>

fun breaker_shifts :: "string \<Rightarrow> string \<Rightarrow> int list \<Rightarrow> int option result" where
  "breaker_shifts ciphertext i [] = Inr None"
| "breaker_shifts ciphertext i (shift # shifts) =
     (case decrypt_caesar ciphertext shift of
        Inl e \<Rightarrow> Inl e
      | Inr word \<Rightarrow> if word = i then Inr (Some shift) else breaker_shifts ciphertext i shifts)"

fun breaker_loop :: "string \<Rightarrow> string list \<Rightarrow> int option \<Rightarrow> int result" where
  "breaker_loop ciphertext [] tried = (case tried of None \<Rightarrow> Inl UnboundLocalError | Some shift \<Rightarrow> Inr (0 + shift))"
| "breaker_loop ciphertext (i # is) tried =
     (if ciphertext = i then Inr 0
      else case breaker_shifts ciphertext i [0..24] of
             Inl e \<Rightarrow> Inl e
           | Inr (Some shift) \<Rightarrow> Inr shift
           | Inr None \<Rightarrow> breaker_loop ciphertext is (Some 24))"

definition caesar_breaker :: "string \<Rightarrow> string list \<Rightarrow> int result" where
  "caesar_breaker ciphertext dictionary = breaker_loop ciphertext dictionary None"

subsection \<open>\<open>vigenere.py\<close>\<close>

text \<open>\<open>keyword[ind % len(keyword)]\<close>: \<open>ZeroDivisionError\<close> for an empty keyword.\<close>

definition key_ord :: "string \<Rightarrow> nat \<Rightarrow> int result" where
  "key_ord keyword ind =
     (if keyword = [] then Inl ZeroDivisionError else Inr (py_ord (keyword ! (ind mod length keyword))))"

definition vigenere_char :: "(int \<Rightarrow> int \<Rightarrow> int) \<Rightarrow> string \<Rightarrow> nat \<Rightarrow> char \<Rightarrow> char result" where
  "vigenere_char op keyword ind i =
     (if py_isupper i then
        map_sum id (\<lambda>k. char_of (nat (op (py_ord i - py_ord CHR ''A'') (k - py_ord CHR ''A'') mod 26 + py_ord CHR ''A'')))
          (key_ord keyword ind)
      else if py_islower i then
        map_sum id (\<lambda>k. char_of (nat (op (py_ord i - py_ord CHR ''a'') (k - py_ord CHR ''a'') mod 26 + py_ord CHR ''a'')))
          (key_ord keyword ind)
      else Inr i)"

definition encrypt_vigenere :: "string \<Rightarrow> string \<Rightarrow> string result" where
  "encrypt_vigenere plaintext keyword =
     seq_results (map (\<lambda>(ind, i). vigenere_char (+) keyword ind i) (enumerate 0 plaintext))"

definition decrypt_vigenere :: "string \<Rightarrow> string \<Rightarrow> string result" where
  "decrypt_vigenere ciphertext keyword =
     seq_results (map (\<lambda>(ind, i). vigenere_char (-) keyword ind i) (enumerate 0 ciphertext))"

subsection \<open>Properties\<close>

text \<open>
  The round trips hold on ASCII text: an accented Latin-1 letter counts as a
  letter for \<open>isupper\<close>/\<open>islower\<close> but its offset from \<open>A\<close> or \<open>a\<close> exceeds 25,
  so the cipher maps it into \<open>A..Z\<close> or \<open>a..z\<close> and cannot restore it.
\<close>

definition ascii_text :: "string \<Rightarrow> bool" where
  "ascii_text s \<longleftrightarrow> (\<forall>c \<in> set s. of_char c < (128 :: nat))"

lemma ascii_char_cases:
  assumes "of_char c < (128 :: nat)"
  obtains (upper) x :: nat where "x < 26" "c = char_of (65 + x)" "py_isupper c" "\<not> py_islower c"
        | (lower) x :: nat where "x < 26" "c = char_of (97 + x)" "py_islower c" "\<not> py_isupper c"
        | (other) "\<not> py_isupper c" "\<not> py_islower c"
proof -
  let ?n = "of_char c :: nat"
  have cn: "c = char_of ?n" by simp
  show ?thesis
  proof (cases "65 \<le> ?n \<and> ?n \<le> 90")
    case True
    then show ?thesis using assms
      by (intro upper [of "?n - 65"]) (auto simp: py_isupper_def py_islower_def Let_def)
  next
    case F1: False
    show ?thesis
    proof (cases "97 \<le> ?n \<and> ?n \<le> 122")
      case True
      then show ?thesis using assms
        by (intro lower [of "?n - 97"]) (auto simp: py_isupper_def py_islower_def Let_def)
    next
      case False
      then show ?thesis using assms F1
        by (intro other) (auto simp: py_isupper_def py_islower_def Let_def)
    qed
  qed
qed

lemma py_ord_char_of [simp]: "n < 256 \<Longrightarrow> py_ord (char_of n) = int n"
  by (simp add: py_ord_def of_char_of)

lemma py_ord_A [simp]: "py_ord CHR ''A'' = 65" and py_ord_a [simp]: "py_ord CHR ''a'' = 97"
  by (simp_all add: py_ord_def)

lemma upper_letter [simp]:
  "x < (26 :: nat) \<Longrightarrow> py_isupper (char_of (65 + x)) \<and> \<not> py_islower (char_of (65 + x))"
  by (simp add: py_isupper_def py_islower_def of_char_of)

lemma lower_letter [simp]:
  "x < (26 :: nat) \<Longrightarrow> py_islower (char_of (97 + x)) \<and> \<not> py_isupper (char_of (97 + x))"
  by (simp add: py_isupper_def py_islower_def of_char_of)

lemma letter_code:
  "b + 26 \<le> 256 \<Longrightarrow> x < 26 \<Longrightarrow>
     char_of (nat ((int (b + x) - int b + s) mod 26 + int b)) = char_of (b + nat ((int x + s) mod 26))"
proof -
  have "nat ((int (b + x) - int b + s) mod 26 + int b) = b + nat ((int x + s) mod 26)"
    by (simp add: nat_add_distrib)
  then show ?thesis by simp
qed

lemma caesar_upper:
  "x < 26 \<Longrightarrow> caesar_char s (char_of (65 + x)) = char_of (65 + nat ((int x + s) mod 26))"
  using letter_code [of 65 x s] by (simp add: caesar_char_def)

lemma caesar_lower:
  "x < 26 \<Longrightarrow> caesar_char s (char_of (97 + x)) = char_of (97 + nat ((int x + s) mod 26))"
  using letter_code [of 97 x s] by (simp add: caesar_char_def)

lemma uncaesar_code_mod:
  assumes "0 \<le> k" "k < 26" "0 \<le> s" "s \<le> 26"
  shows "uncaesar_code s k = (k - s) mod 26"
proof (cases "k < s")
  case True
  have "(k - s) mod 26 = (k - s + 26) mod 26" by simp
  also have "\<dots> = k - s + 26" using assms True by (intro mod_pos_pos_trivial) auto
  finally show ?thesis using True by (simp add: uncaesar_code_def)
next
  case False
  then have "(k - s) mod 26 = k - s" using assms by (intro mod_pos_pos_trivial) auto
  then show ?thesis using False by (simp add: uncaesar_code_def)
qed

lemma uncaesar_letter:
  assumes "b = 65 \<or> b = 97" "x < 26" "0 \<le> s" "s \<le> 26"
  shows "py_chr (uncaesar_code s (int x) + int b) = Inr (char_of (b + nat ((int x - s) mod 26)))"
proof -
  have u: "uncaesar_code s (int x) = (int x - s) mod 26"
    using assms by (simp add: uncaesar_code_mod)
  have "nat ((int x - s) mod 26 + int b) = b + nat ((int x - s) mod 26)"
    by (simp add: nat_add_distrib)
  moreover have "(int x - s) mod 26 + int b < 256" using assms(1) by auto
  ultimately show ?thesis using assms(1) by (auto simp: u py_chr_def)
qed

lemma uncaesar_upper:
  "x < 26 \<Longrightarrow> 0 \<le> s \<Longrightarrow> s \<le> 26 \<Longrightarrow>
     uncaesar_char s (char_of (65 + x)) = Inr (char_of (65 + nat ((int x - s) mod 26)))"
  using uncaesar_letter [of 65 x s] by (simp add: uncaesar_char_def)

lemma uncaesar_lower:
  "x < 26 \<Longrightarrow> 0 \<le> s \<Longrightarrow> s \<le> 26 \<Longrightarrow>
     uncaesar_char s (char_of (97 + x)) = Inr (char_of (97 + nat ((int x - s) mod 26)))"
  using uncaesar_letter [of 97 x s] by (simp add: uncaesar_char_def)

lemma uncaesar_char_ascii:
  assumes "of_char c < (128 :: nat)" "0 \<le> s" "s \<le> 26"
  shows "uncaesar_char s c = Inr (caesar_char (- s) c)"
  using assms(1)
proof (cases rule: ascii_char_cases)
  case (upper x)
  then show ?thesis using assms(2,3) by (simp only: uncaesar_upper caesar_upper diff_conv_add_uminus)
next
  case (lower x)
  then show ?thesis using assms(2,3) by (simp only: uncaesar_lower caesar_lower diff_conv_add_uminus)
qed (simp_all add: uncaesar_char_def caesar_char_def)

lemma caesar_char_add:
  assumes "of_char c < (128 :: nat)"
  shows "caesar_char b (caesar_char a c) = caesar_char (a + b) c"
  using assms
proof (cases rule: ascii_char_cases)
  case (upper x)
  have "nat ((int x + a) mod 26) < 26" by simp
  then show ?thesis using upper
    by (simp add: caesar_upper mod_add_left_eq add.assoc)
next
  case (lower x)
  have "nat ((int x + a) mod 26) < 26" by simp
  then show ?thesis using lower
    by (simp add: caesar_lower mod_add_left_eq add.assoc)
qed (simp_all add: caesar_char_def)

lemma caesar_char_0: "of_char c < (128 :: nat) \<Longrightarrow> caesar_char 0 c = c"
  by (erule ascii_char_cases) (simp_all add: caesar_upper caesar_lower caesar_char_def)

lemma caesar_char_ascii:
  assumes "of_char c < (128 :: nat)"
  shows "of_char (caesar_char s c) < (128 :: nat)"
  using assms
proof (cases rule: ascii_char_cases)
  case (upper x)
  moreover have "nat ((int x + s) mod 26) < 26" by simp
  ultimately show ?thesis by (simp add: caesar_upper of_char_of)
next
  case (lower x)
  moreover have "nat ((int x + s) mod 26) < 26" by simp
  ultimately show ?thesis by (simp add: caesar_lower of_char_of)
next
  case other
  with assms show ?thesis by (simp add: caesar_char_def)
qed

lemma ascii_text_encrypt: "ascii_text t \<Longrightarrow> ascii_text (encrypt_caesar t s)"
  by (auto simp: ascii_text_def encrypt_caesar_def caesar_char_ascii)

lemma encrypt_caesar_add:
  "ascii_text t \<Longrightarrow> encrypt_caesar (encrypt_caesar t a) b = encrypt_caesar t (a + b)"
  by (auto simp: ascii_text_def encrypt_caesar_def caesar_char_add)

lemma encrypt_caesar_0: "ascii_text t \<Longrightarrow> encrypt_caesar t 0 = t"
  by (auto simp: ascii_text_def encrypt_caesar_def caesar_char_0 intro: map_idI)

text \<open>
  C17: on ASCII text and for shifts 0 to 26, the branching \<open>decrypt_caesar\<close> agrees with the modular reference: it is \<open>encrypt_caesar\<close> with the negated shift.
\<close>

theorem decrypt_caesar_reference:
  "ascii_text t \<Longrightarrow> 0 \<le> s \<Longrightarrow> s \<le> 26 \<Longrightarrow> decrypt_caesar t s = Inr (encrypt_caesar t (- s))"
  unfolding decrypt_caesar_def encrypt_caesar_def ascii_text_def
  by (rule seq_results_map_Inr) (simp add: uncaesar_char_ascii)

text \<open>
  C16: on ASCII text and for shifts 0 to 26, \<open>decrypt_caesar\<close> undoes \<open>encrypt_caesar\<close>.
\<close>

theorem caesar_roundtrip:
  assumes "ascii_text t" "0 \<le> s" "s \<le> 26"
  shows "decrypt_caesar (encrypt_caesar t s) s = Inr t"
proof -
  have "\<forall>c \<in> set t. uncaesar_char s (caesar_char s c) = Inr c"
    using assms by (auto simp: ascii_text_def uncaesar_char_ascii caesar_char_ascii caesar_char_add caesar_char_0)
  then show ?thesis
    unfolding decrypt_caesar_def encrypt_caesar_def map_map comp_def
    by (subst seq_results_map_Inr [where g = id]) simp_all
qed

lemma py_chr_small: "n < 256 \<Longrightarrow> py_chr n = (if n < 0 then Inl ValueError else Inr (char_of (nat n)))"
  by (simp add: py_chr_def)

lemma uncaesar_char_nonneg:
  assumes "0 \<le> s"
  shows "uncaesar_char s c = Inl ValueError \<or> (\<exists>v. uncaesar_char s c = Inr v)"
proof -
  have "py_ord c < 256" using nat_of_char_less_256 [of c] by (simp add: py_ord_def)
  moreover have "py_chr n = Inl ValueError \<or> (\<exists>v. py_chr n = Inr v)" if "n < 256" for n
    using that by (simp add: py_chr_small)
  ultimately show ?thesis using assms
    by (auto simp: uncaesar_char_def uncaesar_code_def)
qed

lemma uncaesar_char_total:
  assumes "0 \<le> s" "s \<le> 26"
  shows "\<exists>v. uncaesar_char s c = Inr v"
  using assms
  by (auto simp: uncaesar_char_def uncaesar_code_def py_chr_def py_isupper_def py_islower_def py_ord_def Let_def)
     (use nat_of_char_less_256 [of c] in linarith)


lemma shift_mod_fixed: "0 \<le> x \<Longrightarrow> x < 26 \<Longrightarrow> (x + d) mod 26 = x \<longleftrightarrow> d mod (26 :: int) = 0"
proof -
  assume "0 \<le> x" "x < 26"
  then have "x = x mod 26" by simp
  then have "(x + d) mod 26 = x \<longleftrightarrow> (x + d) mod 26 = x mod 26" by simp
  also have "\<dots> \<longleftrightarrow> 26 dvd d" by (simp add: mod_eq_dvd_iff)
  finally show ?thesis by (simp add: dvd_eq_mod_eq_0)
qed

lemma caesar_char_moves:
  assumes "of_char c < (128 :: nat)" "py_isupper c \<or> py_islower c" "d mod 26 \<noteq> 0"
  shows "caesar_char d c \<noteq> c"
  using assms(1)
proof (cases rule: ascii_char_cases)
  case (upper x)
  then have "(int x + d) mod 26 \<noteq> int x" using assms(3) by (simp add: shift_mod_fixed)
  then show ?thesis using upper by (simp add: caesar_upper)
next
  case (lower x)
  then have "(int x + d) mod 26 \<noteq> int x" using assms(3) by (simp add: shift_mod_fixed)
  then show ?thesis using lower by (simp add: caesar_lower)
qed (use assms(2) in simp)

lemma encrypt_caesar_moves:
  assumes "ascii_text w" "\<exists>c \<in> set w. py_isupper c \<or> py_islower c" "d mod 26 \<noteq> 0"
  shows "encrypt_caesar w d \<noteq> w"
proof
  assume eq: "encrypt_caesar w d = w"
  obtain c where c: "c \<in> set w" "py_isupper c \<or> py_islower c" using assms(2) by blast
  have "c \<in> set (encrypt_caesar w d) \<longleftrightarrow> True" using eq c(1) by simp
  from c(1) obtain i where i: "i < length w" "w ! i = c" by (auto simp: in_set_conv_nth)
  have "encrypt_caesar w d ! i = caesar_char d c" using i by (simp add: encrypt_caesar_def)
  with eq i have "caesar_char d c = c" by simp
  moreover have "of_char c < (128 :: nat)" using assms(1) c(1) by (simp add: ascii_text_def)
  ultimately show False using caesar_char_moves c(2) assms(3) by blast
qed

lemma breaker_shifts_found:
  "(\<forall>j \<in> set xs. \<exists>v. decrypt_caesar c j = Inr v \<and> v \<noteq> w) \<Longrightarrow> decrypt_caesar c k = Inr w \<Longrightarrow>
     breaker_shifts c w (xs @ k # ys) = Inr (Some k)"
  by (induction xs) auto

lemma breaker_shifts_none:
  "(\<forall>j \<in> set xs. \<exists>v. decrypt_caesar c j = Inr v \<and> v \<noteq> w) \<Longrightarrow> breaker_shifts c w xs = Inr None"
  by (induction xs) auto

text \<open>
  C20: when the first dictionary word contains a letter and the ciphertext is that word encrypted with a shift from 0 to 24, \<open>caesar_breaker\<close> returns that shift.
\<close>

theorem caesar_breaker_finds:
  assumes "ascii_text w" "\<exists>c \<in> set w. py_isupper c \<or> py_islower c" "0 \<le> k" "k \<le> 24"
  shows "caesar_breaker (encrypt_caesar w k) (w # ws) = Inr k"
proof (cases "k = 0")
  case True
  then show ?thesis using assms(1) by (simp add: caesar_breaker_def encrypt_caesar_0)
next
  case False
  let ?c = "encrypt_caesar w k"
  have ac: "ascii_text ?c" using assms(1) by (rule ascii_text_encrypt)
  have dec: "decrypt_caesar ?c j = Inr (encrypt_caesar w (k - j))" if "0 \<le> j" "j \<le> 26" for j
    using that ac assms(1) by (simp add: decrypt_caesar_reference encrypt_caesar_add)
  have ne: "?c \<noteq> w" using False assms by (intro encrypt_caesar_moves) auto
  have pre: "\<forall>j \<in> set [0..k - 1]. \<exists>v. decrypt_caesar ?c j = Inr v \<and> v \<noteq> w"
  proof
    fix j assume "j \<in> set [0..k - 1]"
    then have j: "0 \<le> j" "j < k" by auto
    then have "(k - j) mod 26 \<noteq> 0" using assms(4) by simp
    then have "encrypt_caesar w (k - j) \<noteq> w" by (rule encrypt_caesar_moves [OF assms(1,2)])
    then show "\<exists>v. decrypt_caesar ?c j = Inr v \<and> v \<noteq> w" using j assms(4) dec by simp
  qed
  have hit: "decrypt_caesar ?c k = Inr w" using assms dec [of k] by (simp add: encrypt_caesar_0)
  have s1: "[0..24] = [0..k - 1] @ [k..24]" using assms(3,4) by (rule upto_split1)
  have s2: "[k..24] = k # [k + 1..24]" using assms(4) by (rule upto_rec1)
  have split: "[0..24] = [0..k - 1] @ k # [k + 1..24]" by (simp only: s1 s2)
  have "breaker_shifts ?c w [0..24] = Inr (Some k)"
    unfolding split by (rule breaker_shifts_found [OF pre hit])
  then show ?thesis using ne by (simp add: caesar_breaker_def)
qed

lemma breaker_loop_no_match:
  assumes "\<forall>w \<in> set ws. w \<noteq> c \<and> (\<forall>j \<in> set [0..24]. decrypt_caesar c j \<noteq> Inr w)" "ws \<noteq> []"
  shows "breaker_loop c ws t = Inr 24"
  using assms
proof (induction ws arbitrary: t)
  case (Cons w ws)
  have "\<forall>j \<in> set [0..24]. \<exists>v. decrypt_caesar c j = Inr v \<and> v \<noteq> w"
  proof
    fix j :: int assume "j \<in> set [0..24]"
    then have "\<exists>v. decrypt_caesar c j = Inr v" unfolding decrypt_caesar_def
      by (intro seq_results_total ballI uncaesar_char_total) auto
    then show "\<exists>v. decrypt_caesar c j = Inr v \<and> v \<noteq> w" using Cons.prems(1) \<open>j \<in> set [0..24]\<close> by auto
  qed
  then have "breaker_shifts c w [0..24] = Inr None" by (rule breaker_shifts_none)
  then show ?case using Cons by (cases ws) auto
qed simp

text \<open>
  C21: when no dictionary word is the ciphertext or one of its decryptions with the shifts 0 to 24 (shift 25 is never tried), \<open>caesar_breaker\<close> returns 24, the last shift tried, and raises \<open>UnboundLocalError\<close> for an empty dictionary.
\<close>

theorem caesar_breaker_no_match:
  assumes "\<forall>w \<in> set ws. w \<noteq> c \<and> (\<forall>j \<in> set [0..24]. decrypt_caesar c j \<noteq> Inr w)"
  shows "caesar_breaker c ws = (if ws = [] then Inl UnboundLocalError else Inr 24)"
  using assms breaker_loop_no_match [OF assms] by (simp add: caesar_breaker_def)

text \<open>
  C19: for a shift above 148, \<open>decrypt_caesar\<close> of a text with an ASCII letter raises \<open>ValueError\<close> (\<open>chr\<close> of a negative code): the decryption formula is only meant for shifts up to 26.
\<close>

theorem decrypt_caesar_large_shift:
  assumes "148 < s" "\<exists>c \<in> set t. of_char c < (128 :: nat) \<and> (py_isupper c \<or> py_islower c)"
  shows "decrypt_caesar t s = Inl ValueError"
  unfolding decrypt_caesar_def
proof (rule seq_results_first_error)
  show "\<forall>c \<in> set t. uncaesar_char s c = Inl ValueError \<or> (\<exists>v. uncaesar_char s c = Inr v)"
    using assms(1) by (simp add: uncaesar_char_nonneg)
  obtain c where c: "c \<in> set t" "of_char c < (128 :: nat)" "py_isupper c \<or> py_islower c" using assms(2) by blast
  from c(2) have "uncaesar_char s c = Inl ValueError"
  proof (cases rule: ascii_char_cases)
    case (upper x)
    then show ?thesis using assms(1) by (simp add: uncaesar_char_def uncaesar_code_def py_chr_def)
  next
    case (lower x)
    then show ?thesis using assms(1) by (simp add: uncaesar_char_def uncaesar_code_def py_chr_def)
  qed (use c(3) in simp)
  with c(1) show "\<exists>c \<in> set t. uncaesar_char s c = Inl ValueError" by blast
qed

definition vig_shift :: "int \<Rightarrow> string \<Rightarrow> nat \<Rightarrow> char \<Rightarrow> char" where
  "vig_shift sg keyword ind c =
     (let k = py_ord (keyword ! (ind mod length keyword)) in
      if py_isupper c then caesar_char (sg * (k - 65)) c
      else if py_islower c then caesar_char (sg * (k - 97)) c else c)"

lemma upper_not_lower: "py_isupper c \<Longrightarrow> \<not> py_islower c"
  by (auto simp: py_isupper_def py_islower_def Let_def)

lemma vigenere_char_plus:
  "keyword \<noteq> [] \<Longrightarrow> vigenere_char (+) keyword ind c = Inr (vig_shift 1 keyword ind c)"
  by (simp add: vigenere_char_def vig_shift_def key_ord_def caesar_char_def Let_def)

lemma vigenere_char_minus:
  "keyword \<noteq> [] \<Longrightarrow> vigenere_char (-) keyword ind c = Inr (vig_shift (-1) keyword ind c)"
  by (simp add: vigenere_char_def vig_shift_def key_ord_def caesar_char_def Let_def)

lemma caesar_char_class:
  assumes "of_char c < (128 :: nat)"
  shows "py_isupper (caesar_char d c) = py_isupper c \<and> py_islower (caesar_char d c) = py_islower c"
  using assms
proof (cases rule: ascii_char_cases)
  case (upper x)
  have "nat ((int x + d) mod 26) < 26" by simp
  then show ?thesis using upper by (simp add: caesar_upper)
next
  case (lower x)
  have "nat ((int x + d) mod 26) < 26" by simp
  then show ?thesis using lower by (simp add: caesar_lower)
qed (simp add: caesar_char_def)

lemma vig_shift_inverse:
  "of_char c < (128 :: nat) \<Longrightarrow> vig_shift (-1) keyword ind (vig_shift 1 keyword ind c) = c"
  by (auto simp: vig_shift_def Let_def caesar_char_class caesar_char_add caesar_char_0)

lemma vig_shift_ascii:
  "of_char c < (128 :: nat) \<Longrightarrow> of_char (vig_shift sg keyword ind c) < (128 :: nat)"
  by (simp add: vig_shift_def Let_def caesar_char_ascii)

lemma enumerate_map_pairs:
  "enumerate n (map (\<lambda>(m, c). f m c) (enumerate n t)) = map (\<lambda>(m, c). (m, f m c)) (enumerate n t)"
  by (induction t arbitrary: n) auto

lemma enumerate_map_id:
  "(\<And>m c. c \<in> set t \<Longrightarrow> f m c = c) \<Longrightarrow> map (\<lambda>(m, c). f m c) (enumerate n t) = t"
  by (induction t arbitrary: n) auto

text \<open>
  C22: on ASCII text and with a non-empty keyword, \<open>encrypt_vigenere\<close> succeeds and \<open>decrypt_vigenere\<close> gives the text back.
\<close>

theorem vigenere_roundtrip:
  assumes "ascii_text t" "keyword \<noteq> []"
  shows "\<exists>u. encrypt_vigenere t keyword = Inr u \<and> decrypt_vigenere u keyword = Inr t"
proof -
  let ?u = "map (\<lambda>(ind, c). vig_shift 1 keyword ind c) (enumerate 0 t)"
  have enc: "encrypt_vigenere t keyword = Inr ?u"
    unfolding encrypt_vigenere_def
    by (rule seq_results_map_Inr) (auto simp: vigenere_char_plus [OF assms(2)])
  have asc: "\<forall>c \<in> set t. of_char c < (128 :: nat)" using assms(1) by (simp add: ascii_text_def)
  have "decrypt_vigenere ?u keyword = Inr (map (\<lambda>(ind, c). vig_shift (-1) keyword ind (vig_shift 1 keyword ind c)) (enumerate 0 t))"
    unfolding decrypt_vigenere_def enumerate_map_pairs map_map
    by (rule seq_results_map_Inr) (auto simp: vigenere_char_minus [OF assms(2)])
  also have "\<dots> = Inr t"
    using asc by (simp add: enumerate_map_id vig_shift_inverse)
  finally show ?thesis using enc by simp
qed

lemma vigenere_no_key:
  "seq_results (map (\<lambda>(ind, i). vigenere_char op [] ind i) (enumerate n t)) =
     (if \<exists>c \<in> set t. py_isupper c \<or> py_islower c then Inl ZeroDivisionError else Inr t)"
  by (induction t arbitrary: n) (auto simp: vigenere_char_def key_ord_def)

text \<open>
  C24: with an empty keyword, \<open>encrypt_vigenere\<close> raises \<open>ZeroDivisionError\<close> exactly when the text contains a letter, and returns the text otherwise.
\<close>

theorem vigenere_empty_key:
  "encrypt_vigenere t [] =
     (if \<exists>c \<in> set t. py_isupper c \<or> py_islower c then Inl ZeroDivisionError else Inr t)"
  unfolding encrypt_vigenere_def by (rule vigenere_no_key)

lemma enumerate_map_snd: "map (\<lambda>(m, c). f c) (enumerate n t) = map f t"
  by (induction t arbitrary: n) auto

text \<open>
  C23: \<open>encrypt_vigenere\<close> with a one-character keyword is a Caesar shift whose amount depends on the case of each text letter: \<open>ord(k) - 65\<close> for upper case, \<open>ord(k) - 97\<close> for lower case, so an upper-case key letter shifts lower-case text by a different amount.
\<close>

theorem vigenere_single_key:
  "encrypt_vigenere t [k] =
     Inr (map (\<lambda>c. if py_islower c then caesar_char (py_ord k - 97) c else caesar_char (py_ord k - 65) c) t)"
proof -
  have "encrypt_vigenere t [k] = Inr (map (\<lambda>(ind, c). vig_shift 1 [k] ind c) (enumerate 0 t))"
    unfolding encrypt_vigenere_def by (rule seq_results_map_Inr) (auto simp: vigenere_char_plus)
  also have "\<dots> = Inr (map (\<lambda>c. if py_islower c then caesar_char (py_ord k - 97) c else caesar_char (py_ord k - 65) c) t)"
  proof -
    have vs: "vig_shift 1 [k] ind c = (if py_islower c then caesar_char (py_ord k - 97) c else caesar_char (py_ord k - 65) c)"
      for ind c by (simp add: vig_shift_def caesar_char_def upper_not_lower)
    show ?thesis by (simp only: vs enumerate_map_snd)
  qed
  finally show ?thesis .
qed

subsection \<open>Examples\<close>

theorem decrypt_caesar_reference_witness:
  "ascii_text ''Sbwkrq3.6'' \<and> decrypt_caesar ''Sbwkrq3.6'' 3 = Inr (encrypt_caesar ''Sbwkrq3.6'' (- 3))"
proof -
  have a: "ascii_text ''Sbwkrq3.6''" by (simp add: ascii_text_def)
  show ?thesis using a decrypt_caesar_reference [OF a, of 3] by simp
qed

theorem caesar_roundtrip_witness:
  "ascii_text ''Python3.6'' \<and> decrypt_caesar (encrypt_caesar ''Python3.6'' 3) 3 = Inr ''Python3.6''"
proof -
  have a: "ascii_text ''Python3.6''" by (simp add: ascii_text_def)
  show ?thesis using a caesar_roundtrip [OF a, of 3] by simp
qed


theorem caesar_breaker_finds_witness:
  "ascii_text ''python'' \<and> caesar_breaker (encrypt_caesar ''python'' 3) [''python'', ''java''] = Inr 3"
proof -
  have a: "ascii_text ''python''" by (simp add: ascii_text_def)
  have l: "\<exists>c \<in> set ''python''. py_isupper c \<or> py_islower c" by (simp add: py_islower_def)
  show ?thesis using a caesar_breaker_finds [OF a l, of 3 "[''java'']"] by simp
qed

theorem caesar_breaker_no_match_witness:
  "encrypt_caesar ''a'' 25 = ''z'' \<and> caesar_breaker ''z'' [''a''] = Inr 24"
proof -
  have e: "encrypt_caesar ''a'' 25 = ''z''" by code_simp
  have h: "\<forall>w \<in> set [''a'']. w \<noteq> ''z'' \<and> (\<forall>j \<in> set [0..24]. decrypt_caesar ''z'' j \<noteq> Inr w)"
    by code_simp
  show ?thesis using e caesar_breaker_no_match [OF h] by simp
qed

theorem decrypt_caesar_large_shift_witness: "decrypt_caesar ''A'' 200 = Inl ValueError"
proof -
  have l: "\<exists>c \<in> set ''A''. of_char c < (128 :: nat) \<and> (py_isupper c \<or> py_islower c)"
    by (simp add: py_isupper_def)
  show ?thesis using decrypt_caesar_large_shift [OF _ l, of 200] by simp
qed

theorem vigenere_roundtrip_witness:
  "ascii_text ''ATTACKATDAWN''
   \<and> (\<exists>u. encrypt_vigenere ''ATTACKATDAWN'' ''LEMON'' = Inr u \<and> decrypt_vigenere u ''LEMON'' = Inr ''ATTACKATDAWN'')"
proof -
  have a: "ascii_text ''ATTACKATDAWN''" by (simp add: ascii_text_def)
  show ?thesis using a vigenere_roundtrip [OF a, of "''LEMON''"] by simp
qed

theorem vigenere_single_key_witness: "encrypt_vigenere ''python'' ''A'' = Inr ''jsnbih''"
proof -
  have "map (\<lambda>c. if py_islower c then caesar_char (py_ord CHR ''A'' - 97) c else caesar_char (py_ord CHR ''A'' - 65) c)
          ''python'' = ''jsnbih''"
    by code_simp
  then show ?thesis using vigenere_single_key [of "''python''" "CHR ''A''"] by simp
qed

end
