(* ===== verification/Sudoku.thy ===== *)
theory Sudoku
  imports Prelude
begin

text \<open>
  The sudoku solver of \<open>src/homework02/sudoku.py\<close>.  A grid is a list of rows of
  Python strings (\<open>"1"\<close> .. \<open>"9"\<close> or \<open>"."\<close>), positions are pairs of Python
  integers, and every list access is \<^const>\<open>py_index\<close>, so an access out of range
  is the value \<open>IndexError\<close>.  \<open>group\<close> and \<open>solve\<close> carry fuel: \<open>group\<close> loops
  forever for a group size below 1, and \<open>solve\<close> recurses once per empty cell.
  The iteration order of the set \<open>find_possible_values\<close> returns is a parameter
  \<open>iter\<close> of \<open>solve\<close> (Python's order of a set of strings depends on the
  process's hash seed).
\<close>

type_synonym sgrid = "string list list"
type_synonym spos = "int \<times> int"

subsection \<open>Reading a puzzle: \<open>group\<close>, \<open>create_grid\<close>, \<open>read_sudoku\<close>\<close>

text \<open>\<open>values[:n]\<close> and \<open>del values[:n]\<close>; a negative \<open>n\<close> counts from the end.\<close>

definition py_take :: "int \<Rightarrow> 'a list \<Rightarrow> 'a list" where
  "py_take n xs = take (if 0 \<le> n then nat n else nat (int (length xs) + n)) xs"

definition py_drop :: "int \<Rightarrow> 'a list \<Rightarrow> 'a list" where
  "py_drop n xs = drop (if 0 \<le> n then nat n else nat (int (length xs) + n)) xs"

fun group :: "nat \<Rightarrow> 'a list \<Rightarrow> int \<Rightarrow> 'a list list option" where
  "group 0 values n = None"
| "group (Suc fuel) values n =
     (if values = [] then Some [] else map_option (Cons (py_take n values)) (group fuel (py_drop n values) n))"

definition sudoku_chars :: string where
  "sudoku_chars = ''123456789.''"

definition create_grid :: "string \<Rightarrow> sgrid option" where
  "create_grid puzzle =
     (let digits = map (\<lambda>c. [c]) (filter (\<lambda>c. c \<in> set sudoku_chars) puzzle)
      in group (Suc (length digits)) digits 9)"

text \<open>\<open>read_sudoku\<close> of the file's contents.\<close>

definition read_sudoku :: "string \<Rightarrow> sgrid option" where
  "read_sudoku contents =
     (let digits = map (\<lambda>c. [c]) (filter (\<lambda>c. c \<in> set sudoku_chars) contents)
      in group (Suc (length digits)) digits 9)"

subsection \<open>Rows, columns, blocks\<close>

definition grid_at :: "sgrid \<Rightarrow> int \<Rightarrow> int \<Rightarrow> string result" where
  "grid_at grid i j = rbind (py_index grid i) (\<lambda>row. py_index row j)"

definition get_row :: "sgrid \<Rightarrow> spos \<Rightarrow> string list result" where
  "get_row grid pos = py_index grid (fst pos)"

definition get_col :: "sgrid \<Rightarrow> spos \<Rightarrow> string list result" where
  "get_col grid pos = seq_results (map (\<lambda>row. py_index row (snd pos)) grid)"

definition block_start :: "int list" where
  "block_start = [0, 3, 6]"

text \<open>
  The column start \<open>start[pos[1] // 3]\<close> is evaluated inside the loop body, so it
  raises only when the slice of rows is not empty.
\<close>

definition get_block :: "sgrid \<Rightarrow> spos \<Rightarrow> string list result" where
  "get_block grid pos =
     rbind (py_index block_start (fst pos div 3)) (\<lambda>r.
       let rows = take 3 (drop (nat r) grid) in
       if rows = [] then Inr []
       else rbind (py_index block_start (snd pos div 3)) (\<lambda>c.
              Inr (concat (map (\<lambda>row. take 3 (drop (nat c) row)) rows))))"

subsection \<open>\<open>get_diagonal\<close>\<close>

text \<open>
  The four \<open>while\<close> loops.  Each iteration reads a cell before it moves, and the
  read raises once the row index leaves the grid, so every loop ends.
\<close>

function diag_up_left :: "sgrid \<Rightarrow> int \<Rightarrow> int \<Rightarrow> string list \<Rightarrow> string list result" where
  "diag_up_left grid top' left acc =
     (if top' \<noteq> 0 \<and> left \<noteq> 0 then
        (case grid_at grid (top' - 1) (left - 1) of
           Inl e \<Rightarrow> Inl e
         | Inr v \<Rightarrow> diag_up_left grid (top' - 1) (left - 1) (acc @ [v]))
      else Inr acc)"
  by pat_completeness auto
termination
  by (relation "measure (\<lambda>(grid, top', left, acc). nat (top' + int (length grid)))")
     (auto simp: grid_at_def rbind_def split: sum.splits dest: py_index_Inr)

function diag_down_right :: "sgrid \<Rightarrow> int \<Rightarrow> int \<Rightarrow> string list \<Rightarrow> string list result" where
  "diag_down_right grid bottom right acc =
     (if bottom \<noteq> 9 \<and> right \<noteq> 9 then
        (case grid_at grid bottom right of
           Inl e \<Rightarrow> Inl e
         | Inr v \<Rightarrow> diag_down_right grid (bottom + 1) (right + 1) (acc @ [v]))
      else Inr acc)"
  by pat_completeness auto
termination
  by (relation "measure (\<lambda>(grid, bottom, right, acc). nat (int (length grid) - bottom))")
     (auto simp: grid_at_def rbind_def split: sum.splits dest: py_index_Inr)

function diag_up_right :: "sgrid \<Rightarrow> int \<Rightarrow> int \<Rightarrow> string list \<Rightarrow> string list result" where
  "diag_up_right grid top' right acc =
     (if top' \<noteq> 0 \<and> right \<noteq> 9 then
        (case grid_at grid (top' - 1) (right + 1) of
           Inl e \<Rightarrow> Inl e
         | Inr v \<Rightarrow> diag_up_right grid (top' - 1) (right + 1) (acc @ [v]))
      else Inr acc)"
  by pat_completeness auto
termination
  by (relation "measure (\<lambda>(grid, top', right, acc). nat (top' + int (length grid)))")
     (auto simp: grid_at_def rbind_def split: sum.splits dest: py_index_Inr)

function diag_down_left :: "sgrid \<Rightarrow> int \<Rightarrow> int \<Rightarrow> string list \<Rightarrow> string list result" where
  "diag_down_left grid bottom left acc =
     (if bottom \<noteq> 9 \<and> left \<noteq> -1 then
        (case grid_at grid bottom left of
           Inl e \<Rightarrow> Inl e
         | Inr v \<Rightarrow> diag_down_left grid (bottom + 1) (left - 1) (acc @ [v]))
      else Inr acc)"
  by pat_completeness auto
termination
  by (relation "measure (\<lambda>(grid, bottom, left, acc). nat (int (length grid) - bottom))")
     (auto simp: grid_at_def rbind_def split: sum.splits dest: py_index_Inr)

declare diag_up_left.simps [simp del] diag_down_right.simps [simp del]
  diag_up_right.simps [simp del] diag_down_left.simps [simp del]

text \<open>At the centre the function returns the tuple of both diagonals.\<close>

datatype diagonal = Diag "string list" | Diags "string list" "string list"

definition get_diagonal :: "sgrid \<Rightarrow> spos \<Rightarrow> diagonal result" where
  "get_diagonal grid pos =
     rbind (diag_up_left grid (fst pos) (snd pos) []) (\<lambda>l1.
     rbind (diag_down_right grid (fst pos) (snd pos) (rev l1)) (\<lambda>diagonal_left.
     rbind (diag_up_right grid (fst pos) (snd pos) []) (\<lambda>r1.
     rbind (diag_down_left grid (fst pos) (snd pos) (rev r1)) (\<lambda>diagonal_right.
       if fst pos = snd pos \<and> snd pos = 4 then Inr (Diags diagonal_left diagonal_right)
       else if length diagonal_right > length diagonal_left then Inr (Diag diagonal_right)
       else Inr (Diag diagonal_left)))))"

subsection \<open>Solving\<close>

text \<open>The two nested loops run over \<open>range(len(grid))\<close>, the row index too.\<close>

fun first_empty :: "sgrid \<Rightarrow> (nat \<times> nat) list \<Rightarrow> spos option result" where
  "first_empty grid [] = Inr None"
| "first_empty grid ((i, j) # ps) =
     (case grid_at grid (int i) (int j) of
        Inl e \<Rightarrow> Inl e
      | Inr v \<Rightarrow> if v = ''.'' then Inr (Some (int i, int j)) else first_empty grid ps)"

definition find_empty_positions :: "sgrid \<Rightarrow> spos option result" where
  "find_empty_positions grid = first_empty grid (List.product [0..<length grid] [0..<length grid])"

definition sudoku_digits :: "string set" where
  "sudoku_digits = set (map py_str [1..9])"

definition find_possible_values :: "sgrid \<Rightarrow> spos \<Rightarrow> string set result" where
  "find_possible_values grid pos =
     rbind (get_row grid pos) (\<lambda>r.
     rbind (get_col grid pos) (\<lambda>c.
     rbind (get_block grid pos) (\<lambda>b.
       Inr (sudoku_digits - set r - set c - set b))))"

text \<open>\<open>grid[row][col] = v\<close> at a position \<open>find_empty_positions\<close> returned.\<close>

definition set_cell :: "sgrid \<Rightarrow> spos \<Rightarrow> string \<Rightarrow> sgrid" where
  "set_cell grid pos v = grid[nat (fst pos) := (grid ! nat (fst pos))[nat (snd pos) := v]]"

text \<open>
  \<open>solve\<close> mutates the grid it is given; the model returns the answer together
  with the grid as the call leaves it.  \<open>if answer:\<close> is false for \<open>None\<close> and for
  an empty list.
\<close>

definition truthy :: "sgrid option \<Rightarrow> bool" where
  "truthy answer \<longleftrightarrow> (case answer of None \<Rightarrow> False | Some g \<Rightarrow> g \<noteq> [])"

function (sequential) solve ::
  "nat \<Rightarrow> (string set \<Rightarrow> string list) \<Rightarrow> sgrid \<Rightarrow> (sgrid option \<times> sgrid) result option"
and try_values ::
  "nat \<Rightarrow> (string set \<Rightarrow> string list) \<Rightarrow> spos \<Rightarrow> string list \<Rightarrow> sgrid \<Rightarrow> (sgrid option \<times> sgrid) result option" where
  "solve 0 iter grid = None"
| "solve (Suc n) iter grid =
     (case find_empty_positions grid of
        Inl e \<Rightarrow> Some (Inl e)
      | Inr None \<Rightarrow> Some (Inr (Some grid, grid))
      | Inr (Some pos) \<Rightarrow>
          (case find_possible_values grid pos of
             Inl e \<Rightarrow> Some (Inl e)
           | Inr vals \<Rightarrow> try_values n iter pos (iter vals) grid))"
| "try_values n iter pos [] grid = Some (Inr (None, set_cell grid pos ''.''))"
| "try_values n iter pos (i # is) grid =
     (case solve n iter (set_cell grid pos i) of
        None \<Rightarrow> None
      | Some (Inl e) \<Rightarrow> Some (Inl e)
      | Some (Inr (answer, grid')) \<Rightarrow>
          if truthy answer then Some (Inr (answer, grid')) else try_values n iter pos is grid')"
  by pat_completeness auto
termination
  by (relation "measures [\<lambda>x. case x of Inl (n, _) \<Rightarrow> n | Inr (n, _) \<Rightarrow> n,
                          \<lambda>x. case x of Inl _ \<Rightarrow> 0 | Inr _ \<Rightarrow> 1,
                          \<lambda>x. case x of Inl _ \<Rightarrow> 0 | Inr (_, _, _, l, _) \<Rightarrow> length l]") auto

subsection \<open>\<open>check_solution\<close>\<close>

definition full_set :: "string set" where
  "full_set = set (map (\<lambda>c. [c]) ''123456789'')"

fun check_units :: "(spos \<Rightarrow> string list result) \<Rightarrow> spos list \<Rightarrow> bool result" where
  "check_units get [] = Inr True"
| "check_units get (p # ps) =
     (case get p of Inl e \<Rightarrow> Inl e | Inr vs \<Rightarrow> if set vs \<noteq> full_set then Inr False else check_units get ps)"

definition check_solution :: "sgrid \<Rightarrow> bool result" where
  "check_solution solution =
     (let n = int (length solution) in
      rbind (check_units (get_row solution) (map (\<lambda>r. (r, 0)) [0..n - 1])) (\<lambda>ok1.
        if \<not> ok1 then Inr False else
      rbind (check_units (get_col solution) (map (\<lambda>c. (0, c)) [0..n - 1])) (\<lambda>ok2.
        if \<not> ok2 then Inr False else
      check_units (get_block solution)
        (List.product [i \<leftarrow> [0..n - 2]. i mod 3 = 0] [i \<leftarrow> [0..n - 2]. i mod 3 = 0]))))"

subsection \<open>\<open>display\<close> and \<open>generate_sudoku\<close>\<close>

text \<open>\<open>s.center(width)\<close>: CPython puts the extra space of an odd margin on the
  left only when the width is odd.\<close>

definition py_center :: "nat \<Rightarrow> string \<Rightarrow> string" where
  "py_center width s =
     (let marg = width - length s;
          left = marg div 2 + (if odd marg \<and> odd width then 1 else 0)
      in replicate left (CHR '' '') @ s @ replicate (marg - left) (CHR '' ''))"

definition display_row :: "sgrid \<Rightarrow> int \<Rightarrow> string result" where
  "display_row grid row =
     map_sum id concat
       (seq_results (map (\<lambda>col. map_sum id (\<lambda>v. py_center 2 v @ (if col \<in> {2, 5} then ''|'' else []))
                                  (grid_at grid row col)) [0..8]))"

text \<open>The lines \<open>display\<close> prints: a rule after rows 2 and 5, an empty line at the end.\<close>

definition display :: "sgrid \<Rightarrow> string list result" where
  "display grid =
     map_sum id (\<lambda>ls. concat ls @ [[]])
       (seq_results (map (\<lambda>row. map_sum id (\<lambda>l. if row \<in> {2, 5} then [l, ''------+------+------''] else [l])
                                  (display_row grid row)) [0..8]))"

text \<open>The line \<open>display\<close> prints for a row of a 9x9 grid.\<close>

definition display_line :: "sgrid \<Rightarrow> int \<Rightarrow> string" where
  "display_line g row = concat (map (\<lambda>col. py_center 2 (g ! nat row ! nat col) @ (if col \<in> {2, 5} then ''|'' else [])) [0..8])"

text \<open>The blanking loop of \<open>generate_sudoku\<close>: \<open>rs\<close> are the pairs
  \<open>random.randint(0, 8)\<close> draws, \<open>k\<close> the cells still to blank.  When \<open>solve\<close>
  found no grid the loop never ends; \<open>None\<close> is running out of draws.\<close>

fun gen_loop :: "spos list \<Rightarrow> nat \<Rightarrow> sgrid option \<Rightarrow> sgrid option result option" where
  "gen_loop rs 0 g = Some (Inr g)"
| "gen_loop [] (Suc k) g = None"
| "gen_loop (p # rs) (Suc k) g =
     (case g of
        None \<Rightarrow> gen_loop rs (Suc k) None
      | Some gr \<Rightarrow>
          (case grid_at gr (fst p) (snd p) of
             Inl e \<Rightarrow> Some (Inl e)
           | Inr v \<Rightarrow> if v \<noteq> ''.'' then gen_loop rs k (Some (set_cell gr p ''.'')) else gen_loop rs (Suc k) g))"

definition generate_sudoku ::
  "nat \<Rightarrow> (string set \<Rightarrow> string list) \<Rightarrow> spos list \<Rightarrow> int \<Rightarrow> sgrid option result option" where
  "generate_sudoku n iter rs N =
     (case solve n iter (replicate 9 (replicate 9 ''.'')) of
        None \<Rightarrow> None
      | Some (Inl e) \<Rightarrow> Some (Inl e)
      | Some (Inr (answer, _)) \<Rightarrow> gen_loop rs (nat (81 - min 81 N)) answer)"

subsection \<open>What a correct solver promises\<close>

text \<open>A 9x9 shape, the cells of a grid, the consistency of its units, and the
  validity of a solved grid, stated over positions rather than through the source's
  helpers; \<open>good\<close> is the invariant \<open>solve\<close> keeps.\<close>

definition shape9 :: "sgrid \<Rightarrow> bool" where
  "shape9 g \<longleftrightarrow> length g = 9 \<and> (\<forall>row \<in> set g. length row = 9)"


definition block_of :: "sgrid \<Rightarrow> nat \<Rightarrow> nat \<Rightarrow> string list" where
  "block_of g r c = concat (map (\<lambda>row. take 3 (drop (3 * (c div 3)) row)) (take 3 (drop (3 * (r div 3)) g)))"


definition unit_ok :: "(nat \<Rightarrow> string) \<Rightarrow> bool" where
  "unit_ok f \<longleftrightarrow> distinct (filter (\<lambda>x. x \<noteq> ''.'') (map f [0..<9]))"


definition block_cell :: "sgrid \<Rightarrow> nat \<Rightarrow> nat \<Rightarrow> string" where
  "block_cell g b k = g ! (3 * (b div 3) + k div 3) ! (3 * (b mod 3) + k mod 3)"


definition consistent :: "sgrid \<Rightarrow> bool" where
  "consistent g \<longleftrightarrow>
     (\<forall>i < 9. unit_ok (\<lambda>j. g ! i ! j)) \<and> (\<forall>j < 9. unit_ok (\<lambda>i. g ! i ! j)) \<and> (\<forall>b < 9. unit_ok (block_cell g b))"


definition conflict_free :: "sgrid \<Rightarrow> (nat \<Rightarrow> nat \<Rightarrow> nat \<Rightarrow> nat \<Rightarrow> bool) \<Rightarrow> bool" where
  "conflict_free g U \<longleftrightarrow>
     (\<forall>i < 9. \<forall>j < 9. \<forall>i' < 9. \<forall>j' < 9. U i j i' j' \<longrightarrow> (i, j) \<noteq> (i', j') \<and> g ! i ! j \<noteq> ''.''
        \<longrightarrow> g ! i ! j \<noteq> g ! i' ! j')"


definition same_row :: "nat \<Rightarrow> nat \<Rightarrow> nat \<Rightarrow> nat \<Rightarrow> bool" where
  "same_row i j i' j' \<longleftrightarrow> i = i'"


definition same_col :: "nat \<Rightarrow> nat \<Rightarrow> nat \<Rightarrow> nat \<Rightarrow> bool" where
  "same_col i j i' j' \<longleftrightarrow> j = j'"


definition same_block :: "nat \<Rightarrow> nat \<Rightarrow> nat \<Rightarrow> nat \<Rightarrow> bool" where
  "same_block i j i' j' \<longleftrightarrow> i div 3 = i' div 3 \<and> j div 3 = j' div 3"


definition cells :: "(nat \<times> nat) list" where
  "cells = List.product [0..<9] [0..<9]"


definition dots :: "sgrid \<Rightarrow> nat" where
  "dots g = length (filter (\<lambda>(i, j). g ! i ! j = ''.'') cells)"


definition no_dots :: "sgrid \<Rightarrow> bool" where
  "no_dots g \<longleftrightarrow> (\<forall>i < 9. \<forall>j < 9. g ! i ! j \<noteq> ''.'')"


definition cells_ok :: "sgrid \<Rightarrow> bool" where
  "cells_ok g \<longleftrightarrow> (\<forall>i < 9. \<forall>j < 9. g ! i ! j \<in> insert ''.'' sudoku_digits)"


definition good :: "sgrid \<Rightarrow> bool" where
  "good g \<longleftrightarrow> shape9 g \<and> cells_ok g \<and> consistent g"


definition extends :: "sgrid \<Rightarrow> sgrid \<Rightarrow> bool" where
  "extends g a \<longleftrightarrow> (\<forall>i < 9. \<forall>j < 9. g ! i ! j \<noteq> ''.'' \<longrightarrow> a ! i ! j = g ! i ! j)"


definition iter_ok :: "(string set \<Rightarrow> string list) \<Rightarrow> bool" where
  "iter_ok iter \<longleftrightarrow> (\<forall>S. set (iter S) \<subseteq> S)"


definition iter_complete :: "(string set \<Rightarrow> string list) \<Rightarrow> bool" where
  "iter_complete iter \<longleftrightarrow> iter_ok iter \<and> (\<forall>S. finite S \<longrightarrow> S \<subseteq> set (iter S))"


definition possible :: "sgrid \<Rightarrow> nat \<Rightarrow> nat \<Rightarrow> string set" where
  "possible g r c = sudoku_digits - set (g ! r) - set (map (\<lambda>row. row ! c) g) - set (block_of g r c)"


definition solve_post :: "nat \<Rightarrow> sgrid \<Rightarrow> (sgrid option \<times> sgrid) result option \<Rightarrow> bool" where
  "solve_post n g res \<longleftrightarrow>
     (case res of
        None \<Rightarrow> n \<le> dots g
      | Some (Inl e) \<Rightarrow> False
      | Some (Inr (None, g')) \<Rightarrow> g' = g
      | Some (Inr (Some a, g')) \<Rightarrow> a = g' \<and> good a \<and> no_dots a \<and> extends g a)"


definition valid_sudoku :: "sgrid \<Rightarrow> bool" where
  "valid_sudoku g \<longleftrightarrow>
     (\<forall>i < 9. set (map (\<lambda>j. g ! i ! j) [0..<9]) = full_set) \<and>
     (\<forall>j < 9. set (map (\<lambda>i. g ! i ! j) [0..<9]) = full_set) \<and>
     (\<forall>b < 9. set (map (block_cell g b) [0..<9]) = full_set)"


subsection \<open>Sample grids\<close>

definition sample_solution :: sgrid where
  "sample_solution = map (map (\<lambda>c. [c]))
     [''534678912'', ''672195348'', ''198342567'', ''859761423'', ''426853791'',
      ''713924856'', ''961537284'', ''287419635'', ''345286179'']"


definition sample_puzzle :: sgrid where
  "sample_puzzle = sample_solution[0 := (sample_solution ! 0)[0 := ''.'', 1 := ''.'']]"


definition stuck_puzzle :: sgrid where
  "stuck_puzzle = map (map (\<lambda>c. [c]))
     (''.12345678'' # ''.9.......'' # replicate 7 ''.........'')"


definition diagonal_doc_grid :: sgrid where
  "diagonal_doc_grid = map (map (\<lambda>c. [c]))
     [''023456781'', ''103456719'', ''120456189'', ''123051789'', ''123406789'',
      ''123150789'', ''121456089'', ''113456709'', ''123456780'']"

subsection \<open>Access on a 9x9 grid, consistency, and the solver\<close>

lemma shape9_row: "shape9 g \<Longrightarrow> i < 9 \<Longrightarrow> length (g ! i) = 9"
  by (simp add: shape9_def)


lemma grid_at_shape9: "shape9 g \<Longrightarrow> i < 9 \<Longrightarrow> j < 9 \<Longrightarrow> grid_at g (int i) (int j) = Inr (g ! i ! j)"
  by (simp add: grid_at_def shape9_def)


lemma get_row_shape9: "shape9 g \<Longrightarrow> i < 9 \<Longrightarrow> get_row g (int i, c) = Inr (g ! i)"
  by (simp add: get_row_def shape9_def)


lemma get_col_shape9: "shape9 g \<Longrightarrow> j < 9 \<Longrightarrow> get_col g (r, int j) = Inr (map (\<lambda>row. row ! j) g)"
  unfolding get_col_def by (rule seq_results_map_Inr) (simp add: shape9_def)


lemma block_start_index: "i < 9 \<Longrightarrow> py_index block_start (int i div 3) = Inr (int (3 * (i div 3)))"
proof -
  assume "i < 9"
  then have "i div 3 < 3" by simp
  then have "i div 3 = 0 \<or> i div 3 = 1 \<or> i div 3 = 2" by linarith
  moreover have "int i div 3 = int (i div 3)" by (simp add: zdiv_int)
  ultimately show ?thesis by (auto simp: block_start_def py_index_def)
qed


lemma nat_3_mult [simp]: "nat (3 * int x) = 3 * x"
  by (simp add: nat_mult_distrib)


lemma get_block_shape9: "shape9 g \<Longrightarrow> r < 9 \<Longrightarrow> c < 9 \<Longrightarrow> get_block g (int r, int c) = Inr (block_of g r c)"
proof -
  assume s: "shape9 g" and rc: "r < 9" "c < 9"
  have ne: "take 3 (drop (3 * (r div 3)) g) \<noteq> []" using s rc by (simp add: shape9_def)
  show ?thesis using ne rc by (simp add: get_block_def block_start_index block_of_def Let_def)
qed


lemma in_take_drop:
  "x \<in> set (take 3 (drop s xs)) \<longleftrightarrow> (\<exists>a < 3. s + a < length xs \<and> x = xs ! (s + a))"
proof
  assume "x \<in> set (take 3 (drop s xs))"
  then obtain k where "k < length (take 3 (drop s xs))" "x = take 3 (drop s xs) ! k"
    by (auto simp: in_set_conv_nth)
  then show "\<exists>a < 3. s + a < length xs \<and> x = xs ! (s + a)" by auto
next
  assume "\<exists>a < 3. s + a < length xs \<and> x = xs ! (s + a)"
  then obtain a where a: "a < 3" "s + a < length xs" "x = xs ! (s + a)" by blast
  then have "a < length (take 3 (drop s xs))" "take 3 (drop s xs) ! a = x" by auto
  then show "x \<in> set (take 3 (drop s xs))" by (metis nth_mem)
qed

lemma in_block_pos:
  fixes i j r c :: nat
  assumes "i < 9" "j < 9" "i div 3 = r div 3" "j div 3 = c div 3"
  shows "i = 3 * (r div 3) + i mod 3" "j = 3 * (c div 3) + j mod 3"
proof -
  have "i = 3 * (i div 3) + i mod 3" "j = 3 * (j div 3) + j mod 3" by simp_all
  then show "i = 3 * (r div 3) + i mod 3" "j = 3 * (c div 3) + j mod 3" using assms(3,4) by simp_all
qed


lemma in_block_of:
  assumes "shape9 g" "r < 9" "c < 9"
  shows "x \<in> set (block_of g r c) \<longleftrightarrow>
           (\<exists>i < 9. \<exists>j < 9. i div 3 = r div 3 \<and> j div 3 = c div 3 \<and> x = g ! i ! j)"
proof -
  have len: "length (g ! i) = 9" if "i < 9" for i using assms(1) that by (rule shape9_row)
  have lg: "length g = 9" using assms(1) by (simp add: shape9_def)
  have r3: "3 * (r div 3) + a < 9" "3 * (c div 3) + a < 9" if "a < 3" for a
  proof -
    have "r div 3 < 3" "c div 3 < 3" using assms(2,3) by simp_all
    then show "3 * (r div 3) + a < 9" "3 * (c div 3) + a < 9" using that by linarith+
  qed
  have "x \<in> set (block_of g r c) \<longleftrightarrow>
          (\<exists>a < 3. \<exists>b < 3. x = g ! (3 * (r div 3) + a) ! (3 * (c div 3) + b))"
  proof
    assume "x \<in> set (block_of g r c)"
    then obtain row where row: "row \<in> set (take 3 (drop (3 * (r div 3)) g))"
      "x \<in> set (take 3 (drop (3 * (c div 3)) row))" by (auto simp: block_of_def)
    from row(1) obtain a where a: "a < 3" "row = g ! (3 * (r div 3) + a)" by (auto simp: in_take_drop)
    from row(2) obtain b where b: "b < 3" "x = row ! (3 * (c div 3) + b)" by (auto simp: in_take_drop)
    show "\<exists>a < 3. \<exists>b < 3. x = g ! (3 * (r div 3) + a) ! (3 * (c div 3) + b)" using a b by blast
  next
    assume "\<exists>a < 3. \<exists>b < 3. x = g ! (3 * (r div 3) + a) ! (3 * (c div 3) + b)"
    then obtain a b where ab: "a < 3" "b < 3" "x = g ! (3 * (r div 3) + a) ! (3 * (c div 3) + b)" by blast
    have "g ! (3 * (r div 3) + a) \<in> set (take 3 (drop (3 * (r div 3)) g))"
      using ab(1) r3 [OF ab(1)] lg by (auto simp: in_take_drop)
    moreover have "x \<in> set (take 3 (drop (3 * (c div 3)) (g ! (3 * (r div 3) + a))))"
      using ab r3 len by (auto simp: in_take_drop)
    ultimately show "x \<in> set (block_of g r c)" by (auto simp: block_of_def)
  qed
  also have "\<dots> \<longleftrightarrow> (\<exists>i < 9. \<exists>j < 9. i div 3 = r div 3 \<and> j div 3 = c div 3 \<and> x = g ! i ! j)"
  proof
    assume "\<exists>a < 3. \<exists>b < 3. x = g ! (3 * (r div 3) + a) ! (3 * (c div 3) + b)"
    then obtain a b where ab: "a < 3" "b < 3" "x = g ! (3 * (r div 3) + a) ! (3 * (c div 3) + b)" by blast
    show "\<exists>i < 9. \<exists>j < 9. i div 3 = r div 3 \<and> j div 3 = c div 3 \<and> x = g ! i ! j"
      using ab r3 by (intro exI [of _ "3 * (r div 3) + a"] conjI exI [of _ "3 * (c div 3) + b"]) auto
  next
    assume "\<exists>i < 9. \<exists>j < 9. i div 3 = r div 3 \<and> j div 3 = c div 3 \<and> x = g ! i ! j"
    then obtain i j where ij: "i < 9" "j < 9" "i div 3 = r div 3" "j div 3 = c div 3" "x = g ! i ! j" by blast
    note p = in_block_pos [OF ij(1-4)]
    show "\<exists>a < 3. \<exists>b < 3. x = g ! (3 * (r div 3) + a) ! (3 * (c div 3) + b)"
      using ij(5) p by (intro exI [of _ "i mod 3"] conjI exI [of _ "j mod 3"]) auto
  qed
  finally show ?thesis .
qed


lemma div3_add [simp]: "y < 3 \<Longrightarrow> (3 * x + y) div 3 = (x :: nat)"
  by simp


lemma mod3_add [simp]: "y < 3 \<Longrightarrow> (3 * x + y) mod 3 = (y :: nat)"
  by simp


lemma block_coords:
  fixes b k :: nat
  assumes "b < 9" "k < 9"
  shows "3 * (b div 3) + k div 3 < 9" "3 * (b mod 3) + k mod 3 < 9"
proof -
  have "b div 3 < 3" "k div 3 < 3" "b mod 3 < 3" "k mod 3 < 3" using assms by simp_all
  then show "3 * (b div 3) + k div 3 < 9" "3 * (b mod 3) + k mod 3 < 9" by linarith+
qed


lemma block_index:
  fixes i j :: nat
  assumes "i < 9" "j < 9"
  shows "3 * (i div 3) + j div 3 < 9" "3 * (i mod 3) + j mod 3 < 9"
    "3 * ((3 * (i div 3) + j div 3) div 3) + (3 * (i mod 3) + j mod 3) div 3 = i"
    "3 * ((3 * (i div 3) + j div 3) mod 3) + (3 * (i mod 3) + j mod 3) mod 3 = j"
proof -
  have lt: "i div 3 < 3" "j div 3 < 3" "i mod 3 < 3" "j mod 3 < 3" using assms by simp_all
  then show "3 * (i div 3) + j div 3 < 9" "3 * (i mod 3) + j mod 3 < 9" by linarith+
  show "3 * ((3 * (i div 3) + j div 3) div 3) + (3 * (i mod 3) + j mod 3) div 3 = i"
    using lt by simp
  show "3 * ((3 * (i div 3) + j div 3) mod 3) + (3 * (i mod 3) + j mod 3) mod 3 = j"
    using lt by simp
qed


lemma distinct_filter_upt:
  "distinct (filter P (map f [0..<n])) \<longleftrightarrow> (\<forall>k < n. \<forall>k' < n. k \<noteq> k' \<and> P (f k) \<longrightarrow> f k \<noteq> f k')"
proof (induction n)
  case (Suc n)
  have "distinct (filter P (map f [0..<Suc n])) \<longleftrightarrow>
          distinct (filter P (map f [0..<n])) \<and> (P (f n) \<longrightarrow> (\<forall>k < n. P (f k) \<longrightarrow> f k \<noteq> f n))"
    by (auto simp: image_iff) (metis atLeastLessThan_iff zero_le)
  also have "\<dots> \<longleftrightarrow> (\<forall>k < Suc n. \<forall>k' < Suc n. k \<noteq> k' \<and> P (f k) \<longrightarrow> f k \<noteq> f k')"
    unfolding Suc.IH by (auto simp: less_Suc_eq)
  finally show ?case .
qed simp


lemma unit_ok_iff: "unit_ok f \<longleftrightarrow> (\<forall>k < 9. \<forall>k' < 9. k \<noteq> k' \<and> f k \<noteq> ''.'' \<longrightarrow> f k \<noteq> f k')"
  by (simp only: unit_ok_def distinct_filter_upt)


lemma nat_eq_by_div_mod3: "(i :: nat) div 3 = i' div 3 \<Longrightarrow> i mod 3 = i' mod 3 \<Longrightarrow> i = i'"
proof -
  assume "i div 3 = i' div 3" "i mod 3 = i' mod 3"
  then have "3 * (i div 3) + i mod 3 = 3 * (i' div 3) + i' mod 3" by simp
  then show "i = i'" by simp
qed


lemma blocks_ok_iff:
  "(\<forall>b < 9. unit_ok (block_cell g b)) \<longleftrightarrow>
     (\<forall>i < 9. \<forall>j < 9. \<forall>i' < 9. \<forall>j' < 9. i div 3 = i' div 3 \<and> j div 3 = j' div 3 \<and> (i, j) \<noteq> (i', j')
        \<and> g ! i ! j \<noteq> ''.'' \<longrightarrow> g ! i ! j \<noteq> g ! i' ! j')"
  (is "?B \<longleftrightarrow> ?P")
proof
  assume B: ?B
  show ?P
  proof (intro allI impI)
    fix i j i' j' :: nat
    assume lt: "i < 9" "j < 9" "i' < 9" "j' < 9"
      and h: "i div 3 = i' div 3 \<and> j div 3 = j' div 3 \<and> (i, j) \<noteq> (i', j') \<and> g ! i ! j \<noteq> ''.''"
    let ?b = "3 * (i div 3) + j div 3"
    let ?k = "3 * (i mod 3) + j mod 3"
    let ?k' = "3 * (i' mod 3) + j' mod 3"
    note c = block_index [OF lt(1,2)] and c' = block_index [OF lt(3,4)]
    have b': "?b = 3 * (i' div 3) + j' div 3" using h by simp
    have m: "i mod 3 < 3" "j mod 3 < 3" "i' mod 3 < 3" "j' mod 3 < 3" by simp_all
    have "?k \<noteq> ?k'"
    proof
      assume eq: "?k = ?k'"
      then have "?k div 3 = ?k' div 3" "?k mod 3 = ?k' mod 3" by simp_all
      then have "i mod 3 = i' mod 3" "j mod 3 = j' mod 3" using m by simp_all
      then have "i = i'" "j = j'" using h nat_eq_by_div_mod3 by blast+
      with h show False by simp
    qed
    moreover have "block_cell g ?b ?k = g ! i ! j" using c by (simp add: block_cell_def)
    moreover have "block_cell g ?b ?k' = g ! i' ! j'" using c' b' by (simp add: block_cell_def)
    moreover have "unit_ok (block_cell g ?b)" using B c(1) by blast
    ultimately show "g ! i ! j \<noteq> g ! i' ! j'"
      using c(2) c'(2) h unfolding unit_ok_iff by metis
  qed
next
  assume P: ?P
  show ?B
  proof (intro allI impI)
    fix b assume b: "b < (9 :: nat)"
    show "unit_ok (block_cell g b)" unfolding unit_ok_iff
    proof (intro allI impI)
      fix k k' :: nat assume h0: "k < 9" "k' < 9" and h1: "k \<noteq> k' \<and> block_cell g b k \<noteq> ''.''"
      have h: "k < 9 \<and> k' < 9 \<and> k \<noteq> k' \<and> block_cell g b k \<noteq> ''.''" using h0 h1 by simp
      let ?I = "3 * (b div 3) + k div 3" and ?J = "3 * (b mod 3) + k mod 3"
      let ?I' = "3 * (b div 3) + k' div 3" and ?J' = "3 * (b mod 3) + k' mod 3"
      have kk: "k div 3 < 3" "k mod 3 < 3" "k' div 3 < 3" "k' mod 3 < 3" using h by auto
      have lt: "?I < 9" "?J < 9" "?I' < 9" "?J' < 9" using block_coords [OF b] h by blast+
      have same: "?I div 3 = ?I' div 3" "?J div 3 = ?J' div 3" using kk by simp_all
      have ne: "(?I, ?J) \<noteq> (?I', ?J')"
      proof
        assume "(?I, ?J) = (?I', ?J')"
        then have "k div 3 = k' div 3" "k mod 3 = k' mod 3" by simp_all
        then have "k = k'" by (rule nat_eq_by_div_mod3)
        with h show False by simp
      qed
      have "g ! ?I ! ?J \<noteq> ''.''" using h by (simp add: block_cell_def)
      then have "g ! ?I ! ?J \<noteq> g ! ?I' ! ?J'"
        using P [rule_format, OF lt] same ne by blast
      then show "block_cell g b k \<noteq> block_cell g b k'" by (simp add: block_cell_def)
    qed
  qed
qed


lemma consistent_iff_pos:
  "consistent g \<longleftrightarrow> conflict_free g same_row \<and> conflict_free g same_col \<and> conflict_free g same_block"
proof -
  have rows: "(\<forall>i < 9. unit_ok (\<lambda>j. g ! i ! j)) \<longleftrightarrow> conflict_free g same_row"
    by (auto simp: unit_ok_iff conflict_free_def same_row_def)
  have cols: "(\<forall>j < 9. unit_ok (\<lambda>i. g ! i ! j)) \<longleftrightarrow> conflict_free g same_col"
    by (auto simp: unit_ok_iff conflict_free_def same_col_def)
  have blocks: "(\<forall>b < 9. unit_ok (block_cell g b)) \<longleftrightarrow> conflict_free g same_block"
    unfolding blocks_ok_iff conflict_free_def same_block_def by blast
  show ?thesis unfolding consistent_def rows cols blocks ..
qed


lemma set_cell_nth:
  assumes "shape9 g" "r < 9" "c < 9" "i < 9" "j < 9"
  shows "set_cell g (int r, int c) d ! i ! j = (if i = r \<and> j = c then d else g ! i ! j)"
  using assms by (simp add: set_cell_def shape9_def nth_list_update)


lemma set_cell_shape9: "shape9 g \<Longrightarrow> r < 9 \<Longrightarrow> shape9 (set_cell g (int r, int c) d)"
  unfolding set_cell_def shape9_def
  by (auto dest: set_update_subset_insert [THEN subsetD])


lemma set_cell_same: "shape9 g \<Longrightarrow> r < 9 \<Longrightarrow> set_cell (set_cell g (int r, int c) x) (int r, int c) y = set_cell g (int r, int c) y"
  by (simp add: set_cell_def shape9_def)


lemma set_cell_id: "g ! r ! c = x \<Longrightarrow> set_cell g (int r, int c) x = g"
  unfolding set_cell_def by (metis list_update_id nat_int fst_conv snd_conv)


lemma conflict_free_place:
  assumes g: "shape9 g" "r < 9" "c < 9" "conflict_free g U"
    and d: "\<forall>i < 9. \<forall>j < 9. (U r c i j \<or> U i j r c) \<and> (i, j) \<noteq> (r, c) \<longrightarrow> g ! i ! j \<noteq> d"
  shows "conflict_free (set_cell g (int r, int c) d) U"
  unfolding conflict_free_def
proof (intro allI impI)
  fix i j i' j' :: nat
  assume lt: "i < 9" "j < 9" "i' < 9" "j' < 9" and u: "U i j i' j'"
    and h: "(i, j) \<noteq> (i', j') \<and> set_cell g (int r, int c) d ! i ! j \<noteq> ''.''"
  note nth = set_cell_nth [OF g(1-3)]
  show "set_cell g (int r, int c) d ! i ! j \<noteq> set_cell g (int r, int c) d ! i' ! j'"
  proof (cases "(i, j) = (r, c)")
    case True
    then show ?thesis using h d lt u by (auto simp: nth)
  next
    case ij: False
    show ?thesis
    proof (cases "(i', j') = (r, c)")
      case True
      then show ?thesis using h d lt u ij by (auto simp: nth)
    next
      case False
      have old: "(i, j) \<noteq> (i', j') \<and> g ! i ! j \<noteq> ''.'' \<Longrightarrow> g ! i ! j \<noteq> g ! i' ! j'"
        using g(4) lt u unfolding conflict_free_def by blast
      show ?thesis using False ij h lt old by (auto simp: nth)
    qed
  qed
qed


lemma consistent_place:
  assumes g: "consistent g" "shape9 g" "r < 9" "c < 9"
    and d: "d \<notin> set (g ! r)" "d \<notin> set (map (\<lambda>row. row ! c) g)" "d \<notin> set (block_of g r c)"
  shows "consistent (set_cell g (int r, int c) d)"
proof -
  have lg: "length g = 9" and lr: "\<And>i. i < 9 \<Longrightarrow> length (g ! i) = 9"
    using g(2) by (simp_all add: shape9_def shape9_row)
  have row: "g ! r ! j \<noteq> d" if "j < 9" for j
    using d(1) that lr [OF g(3)] by auto
  have col: "g ! i ! c \<noteq> d" if "i < 9" for i
    using d(2) that lg by (auto simp: image_iff)
  have blk: "g ! i ! j \<noteq> d" if "i div 3 = r div 3" "j div 3 = c div 3" "i < 9" "j < 9" for i j
    using d(3) that in_block_of [OF g(2-4)] by blast
  have R: "\<forall>i < 9. \<forall>j < 9. (same_row r c i j \<or> same_row i j r c) \<and> (i, j) \<noteq> (r, c) \<longrightarrow> g ! i ! j \<noteq> d"
  proof (intro allI impI)
    fix i j :: nat assume "i < 9" "j < 9" "(same_row r c i j \<or> same_row i j r c) \<and> (i, j) \<noteq> (r, c)"
    then show "g ! i ! j \<noteq> d" using row [of j] by (auto simp: same_row_def)
  qed
  have C: "\<forall>i < 9. \<forall>j < 9. (same_col r c i j \<or> same_col i j r c) \<and> (i, j) \<noteq> (r, c) \<longrightarrow> g ! i ! j \<noteq> d"
  proof (intro allI impI)
    fix i j :: nat assume "i < 9" "j < 9" "(same_col r c i j \<or> same_col i j r c) \<and> (i, j) \<noteq> (r, c)"
    then show "g ! i ! j \<noteq> d" using col [of i] by (auto simp: same_col_def)
  qed
  have B: "\<forall>i < 9. \<forall>j < 9. (same_block r c i j \<or> same_block i j r c) \<and> (i, j) \<noteq> (r, c) \<longrightarrow> g ! i ! j \<noteq> d"
  proof (intro allI impI)
    fix i j :: nat assume "i < 9" "j < 9" "(same_block r c i j \<or> same_block i j r c) \<and> (i, j) \<noteq> (r, c)"
    then show "g ! i ! j \<noteq> d" using blk [of i j] by (auto simp: same_block_def)
  qed
  show ?thesis
    using g unfolding consistent_iff_pos
    by (intro conjI conflict_free_place [OF g(2-4) _ R] conflict_free_place [OF g(2-4) _ C]
        conflict_free_place [OF g(2-4) _ B]) simp_all
qed


lemma set_cells: "set cells = {(i, j). i < 9 \<and> j < 9}"
  by (auto simp: cells_def)


lemma distinct_cells: "distinct cells"
  by (simp add: cells_def distinct_product)


lemma dots_card: "dots g = card {(i, j). i < 9 \<and> j < 9 \<and> g ! i ! j = ''.''}"
proof -
  have "dots g = card ({x. (\<lambda>(i, j). g ! i ! j = ''.'') x} \<inter> set cells)"
    unfolding dots_def by (rule distinct_length_filter [OF distinct_cells])
  also have "{x. (\<lambda>(i, j). g ! i ! j = ''.'') x} \<inter> set cells = {(i, j). i < 9 \<and> j < 9 \<and> g ! i ! j = ''.''}"
    by (auto simp: set_cells)
  finally show ?thesis .
qed


lemma dots_set_cell:
  assumes "shape9 g" "r < 9" "c < 9" "g ! r ! c = ''.''" "d \<noteq> ''.''"
  shows "dots (set_cell g (int r, int c) d) = dots g - 1" "0 < dots g"
proof -
  let ?D = "\<lambda>g. {(i, j). i < 9 \<and> j < 9 \<and> g ! i ! j = ''.''}"
  have eq: "?D (set_cell g (int r, int c) d) = ?D g - {(r, c)}"
    using assms by (auto simp: set_cell_nth split: if_splits)
  have fin: "finite (?D g)"
    by (rule finite_subset [of _ "{..<9} \<times> {..<9}"]) auto
  have mem: "(r, c) \<in> ?D g" using assms by simp
  show "dots (set_cell g (int r, int c) d) = dots g - 1"
    unfolding dots_card eq using fin mem by (simp add: card_Diff_singleton)
  show "0 < dots g" unfolding dots_card using fin mem by (auto simp: card_gt_0_iff)
qed


lemma first_empty_find:
  "(\<forall>(i, j) \<in> set ps. i < 9 \<and> j < 9) \<Longrightarrow> shape9 g \<Longrightarrow>
     first_empty g ps = (case find (\<lambda>(i, j). g ! i ! j = ''.'') ps of None \<Rightarrow> Inr None | Some (i, j) \<Rightarrow> Inr (Some (int i, int j)))"
  by (induction g ps rule: first_empty.induct) (auto simp: grid_at_shape9)


lemma find_empty_shape9:
  assumes "shape9 g"
  shows "find_empty_positions g = (case find (\<lambda>(i, j). g ! i ! j = ''.'') cells of
                                     None \<Rightarrow> Inr None | Some (i, j) \<Rightarrow> Inr (Some (int i, int j)))"
proof -
  have "length g = 9" using assms by (simp add: shape9_def)
  then show ?thesis using assms unfolding find_empty_positions_def
    by (subst first_empty_find) (auto simp: cells_def)
qed


lemma find_empty_None: "shape9 g \<Longrightarrow> find_empty_positions g = Inr None \<Longrightarrow> no_dots g"
  by (auto simp: find_empty_shape9 no_dots_def find_None_iff set_cells split: option.splits)


lemma find_empty_Some:
  assumes "shape9 g" "find_empty_positions g = Inr (Some pos)"
  shows "\<exists>r c. pos = (int r, int c) \<and> r < 9 \<and> c < 9 \<and> g ! r ! c = ''.''"
proof -
  obtain r c where f: "find (\<lambda>(i, j). g ! i ! j = ''.'') cells = Some (r, c)" "pos = (int r, int c)"
    using assms by (auto simp: find_empty_shape9 split: option.splits)
  then have "(r, c) \<in> set cells" "g ! r ! c = ''.''" by (auto simp: find_Some_iff dest: nth_mem)
  then show ?thesis using f(2) by (auto simp: set_cells)
qed


lemma find_empty_not_Inl: "shape9 g \<Longrightarrow> find_empty_positions g \<noteq> Inl e"
  by (simp add: find_empty_shape9 split: option.splits)


lemma find_possible_shape9:
  "shape9 g \<Longrightarrow> r < 9 \<Longrightarrow> c < 9 \<Longrightarrow>
     find_possible_values g (int r, int c) =
       Inr (sudoku_digits - set (g ! r) - set (map (\<lambda>row. row ! c) g) - set (block_of g r c))"
  by (simp add: find_possible_values_def get_row_shape9 get_col_shape9 get_block_shape9)


lemma sudoku_digits_eq: "sudoku_digits = (\<lambda>c. [c]) ` set ''123456789''"
  by (simp add: sudoku_digits_def py_str_def show_base_eval upto.simps)


lemma dot_notin_digits [simp]: "''.'' \<notin> sudoku_digits"
  by (simp add: sudoku_digits_eq)


lemma good_place:
  assumes "good b" "r < 9" "c < 9" "d \<in> possible b r c"
  shows "good (set_cell b (int r, int c) d)"
proof -
  have s: "shape9 b" and co: "consistent b" and ok: "cells_ok b" using assms(1) by (simp_all add: good_def)
  have "cells_ok (set_cell b (int r, int c) d)"
    using ok assms(2-4) by (auto simp: cells_ok_def set_cell_nth [OF s] possible_def)
  moreover have "consistent (set_cell b (int r, int c) d)"
    using assms(4) by (intro consistent_place [OF co s assms(2,3)]) (simp_all add: possible_def)
  ultimately show ?thesis using set_cell_shape9 [OF s assms(2)] by (simp add: good_def)
qed


lemma extends_place:
  "shape9 b \<Longrightarrow> r < 9 \<Longrightarrow> c < 9 \<Longrightarrow> b ! r ! c = ''.'' \<Longrightarrow> extends (set_cell b (int r, int c) d) a \<Longrightarrow> extends b a"
  unfolding extends_def
proof (intro allI impI)
  fix i j assume s: "shape9 b" "r < 9" "c < 9" "b ! r ! c = ''.''"
    and e: "\<forall>i < 9. \<forall>j < 9. set_cell b (int r, int c) d ! i ! j \<noteq> ''.'' \<longrightarrow>
              a ! i ! j = set_cell b (int r, int c) d ! i ! j"
    and ij: "i < 9" "j < 9" "b ! i ! j \<noteq> ''.''"
  have ne: "\<not> (i = r \<and> j = c)" using s(4) ij(3) by auto
  have "set_cell b (int r, int c) d ! i ! j = (if i = r \<and> j = c then d else b ! i ! j)"
    by (rule set_cell_nth [OF s(1-3) ij(1,2)])
  also have "\<dots> = b ! i ! j" using ne by (simp only: if_False simp_thms)
  finally show "a ! i ! j = b ! i ! j" using e ij by simp
qed


lemma good_not_Nil: "good a \<Longrightarrow> a \<noteq> []"
  by (auto simp: good_def shape9_def)


lemma try_values_post:
  assumes IH: "\<And>g. good g \<Longrightarrow> solve_post n g (solve n iter g)"
    and b: "good b" "r < 9" "c < 9" "b ! r ! c = ''.''" and vs: "set vs \<subseteq> possible b r c"
  shows "solve_post (Suc n) b (try_values n iter (int r, int c) vs (set_cell b (int r, int c) x))"
  using vs
proof (induction vs arbitrary: x)
  case Nil
  have s: "shape9 b" using b(1) by (simp add: good_def)
  show ?case using b by (simp add: solve_post_def set_cell_same [OF s] set_cell_id)
next
  case (Cons i vs)
  have s: "shape9 b" using b(1) by (simp add: good_def)
  have ip: "i \<in> possible b r c" using Cons.prems by simp
  let ?g1 = "set_cell b (int r, int c) i"
  have g1: "good ?g1" using good_place [OF b(1-3) ip] .
  have ind: "i \<noteq> ''.''" using ip by (auto simp: possible_def)
  have d1: "dots ?g1 = dots b - 1" "0 < dots b"
    using dots_set_cell [OF s b(2-4) ind] by simp_all
  have step: "set_cell (set_cell b (int r, int c) x) (int r, int c) i = ?g1" by (rule set_cell_same [OF s b(2)])
  have post: "solve_post n ?g1 (solve n iter ?g1)" using IH [OF g1] .
  show ?case
  proof (cases "solve n iter ?g1")
    case None
    then show ?thesis using post d1 by (simp add: step solve_post_def)
  next
    case (Some res)
    note sres = this
    show ?thesis
    proof (cases res)
      case (Inl e)
      then show ?thesis using post Some by (simp add: solve_post_def)
    next
      case (Inr ag)
      obtain answer g' where ag: "ag = (answer, g')" by (cases ag)
      show ?thesis
      proof (cases answer)
        case None
        then have "g' = ?g1" using post Some Inr ag by (simp add: solve_post_def)
        then have "try_values n iter (int r, int c) (i # vs) (set_cell b (int r, int c) x)
                     = try_values n iter (int r, int c) vs (set_cell b (int r, int c) i)"
          using Some Inr ag None by (simp add: step truthy_def)
        then show ?thesis using Cons.IH Cons.prems by simp
      next
        case (Some a)
        then have a: "a = g'" "good a" "no_dots a" "extends ?g1 a"
          using post sres Inr ag by (auto simp: solve_post_def)
        then have "try_values n iter (int r, int c) (i # vs) (set_cell b (int r, int c) x) = Some (Inr (Some a, g'))"
          using \<open>solve n iter ?g1 = Some res\<close> Inr ag \<open>answer = Some a\<close> by (simp add: step truthy_def good_not_Nil)
        then show ?thesis using a extends_place [OF s b(2-4)] by (simp add: solve_post_def)
      qed
    qed
  qed
qed


lemma solve_post_all:
  assumes "iter_ok iter"
  shows "good g \<Longrightarrow> solve_post n g (solve n iter g)"
proof (induction n arbitrary: g)
  case 0
  then show ?case by (simp add: solve_post_def)
next
  case (Suc n)
  have s: "shape9 g" using Suc.prems by (simp add: good_def)
  show ?case
  proof (cases "find_empty_positions g")
    case (Inl e)
    then show ?thesis using find_empty_not_Inl [OF s] by simp
  next
    case (Inr p)
    show ?thesis
    proof (cases p)
      case None
      then show ?thesis using Inr Suc.prems find_empty_None [OF s]
        by (simp add: solve_post_def extends_def)
    next
      case (Some pos)
      then obtain r c where rc: "pos = (int r, int c)" "r < 9" "c < 9" "g ! r ! c = ''.''"
        using find_empty_Some [OF s] Inr by blast
      have fp: "find_possible_values g pos = Inr (possible g r c)"
        using rc by (simp add: find_possible_shape9 [OF s] possible_def)
      have sub: "set (iter (possible g r c)) \<subseteq> possible g r c" using assms by (simp add: iter_ok_def)
      have "solve_post (Suc n) g (try_values n iter (int r, int c) (iter (possible g r c)) (set_cell g (int r, int c) ''.''))"
        by (rule try_values_post [OF Suc.IH Suc.prems rc(2-4) sub])
      then show ?thesis using Inr Some rc fp by (simp add: set_cell_id)
    qed
  qed
qed


lemma check_units_Inr:
  "(\<forall>p \<in> set ps. get p = Inr (f p)) \<Longrightarrow> check_units get ps = Inr (\<forall>p \<in> set ps. set (f p) = full_set)"
  by (induction ps) auto


lemma full_set_eq: "full_set = sudoku_digits"
  by (simp add: full_set_def sudoku_digits_eq)


lemma card_digits: "card sudoku_digits = 9"
  by (simp add: sudoku_digits_eq)


lemma unit_full:
  assumes "unit_ok f" "\<forall>k < 9. f k \<noteq> ''.'' \<and> f k \<in> insert ''.'' sudoku_digits"
  shows "set (map f [0..<9]) = full_set"
proof -
  have "filter (\<lambda>x. x \<noteq> ''.'') (map f [0..<9]) = map f [0..<9]"
    using assms(2) by (auto simp: filter_id_conv)
  then have "distinct (map f [0..<9])" using assms(1) by (simp add: unit_ok_def)
  then have "card (set (map f [0..<9])) = length (map f [0..<9])" by (rule distinct_card)
  then have c: "card (set (map f [0..<9])) = 9" by simp
  have sub: "set (map f [0..<9]) \<subseteq> sudoku_digits" using assms(2) by auto
  have fin: "finite sudoku_digits" by (simp add: sudoku_digits_eq)
  have "card (set (map f [0..<9])) = card sudoku_digits" by (simp only: c card_digits)
  then show ?thesis unfolding full_set_eq by (rule card_subset_eq [OF fin sub])
qed


lemma good_solved_valid:
  assumes "good g" "no_dots g"
  shows "valid_sudoku g"
proof -
  have ok: "g ! i ! j \<noteq> ''.'' \<and> g ! i ! j \<in> insert ''.'' sudoku_digits" if "i < 9" "j < 9" for i j
    using assms that by (simp add: good_def no_dots_def cells_ok_def)
  have co: "consistent g" using assms(1) by (simp add: good_def)
  have "set (map (\<lambda>j. g ! i ! j) [0..<9]) = full_set" if "i < 9" for i
  proof (rule unit_full)
    show "unit_ok (\<lambda>j. g ! i ! j)" using co that by (simp add: consistent_def)
    show "\<forall>k < 9. g ! i ! k \<noteq> ''.'' \<and> g ! i ! k \<in> insert ''.'' sudoku_digits" using ok that by blast
  qed
  moreover have "set (map (\<lambda>i. g ! i ! j) [0..<9]) = full_set" if "j < 9" for j
  proof (rule unit_full)
    show "unit_ok (\<lambda>i. g ! i ! j)" using co that by (simp add: consistent_def)
    show "\<forall>k < 9. g ! k ! j \<noteq> ''.'' \<and> g ! k ! j \<in> insert ''.'' sudoku_digits" using ok that by blast
  qed
  moreover have "set (map (block_cell g b) [0..<9]) = full_set" if "b < 9" for b
  proof (rule unit_full)
    show "unit_ok (block_cell g b)" using co that by (simp add: consistent_def)
    show "\<forall>k < 9. block_cell g b k \<noteq> ''.'' \<and> block_cell g b k \<in> insert ''.'' sudoku_digits"
      using ok block_coords [OF that] unfolding block_cell_def by blast
  qed
  ultimately show ?thesis by (simp add: valid_sudoku_def)
qed


lemma set_block_of:
  assumes "shape9 g" "b < 9"
  shows "set (block_of g (3 * (b div 3)) (3 * (b mod 3))) = set (map (block_cell g b) [0..<9])"
proof -
  have bd: "b div 3 < 3" "b mod 3 < 3" using assms(2) by simp_all
  have r: "3 * (b div 3) < 9" "3 * (b mod 3) < 9" using bd by linarith+
  show ?thesis
  proof (rule set_eqI)
    fix x
    have "x \<in> set (block_of g (3 * (b div 3)) (3 * (b mod 3))) \<longleftrightarrow>
            (\<exists>i < 9. \<exists>j < 9. i div 3 = b div 3 \<and> j div 3 = b mod 3 \<and> x = g ! i ! j)"
      using in_block_of [OF assms(1) r] by simp
    also have "\<dots> \<longleftrightarrow> (\<exists>k < 9. x = block_cell g b k)"
    proof
      assume "\<exists>i < 9. \<exists>j < 9. i div 3 = b div 3 \<and> j div 3 = b mod 3 \<and> x = g ! i ! j"
      then obtain i j where ij: "i < 9" "j < 9" "i div 3 = b div 3" "j div 3 = b mod 3" "x = g ! i ! j" by blast
      note c = block_index [OF ij(1,2)]
      have "block_cell g b (3 * (i mod 3) + j mod 3) = g ! i ! j"
        using c ij(3,4) by (simp add: block_cell_def)
      then show "\<exists>k < 9. x = block_cell g b k" using c(2) ij(5) by metis
    next
      assume "\<exists>k < 9. x = block_cell g b k"
      then obtain k where k: "k < 9" "x = block_cell g b k" by blast
      have kk: "k div 3 < 3" "k mod 3 < 3" using k(1) by simp_all
      show "\<exists>i < 9. \<exists>j < 9. i div 3 = b div 3 \<and> j div 3 = b mod 3 \<and> x = g ! i ! j"
        using block_coords [OF assms(2) k(1)] kk k(2) unfolding block_cell_def by fastforce
    qed
    also have "\<dots> \<longleftrightarrow> x \<in> set (map (block_cell g b) [0..<9])" by auto
    finally show "x \<in> set (block_of g (3 * (b div 3)) (3 * (b mod 3))) \<longleftrightarrow> x \<in> set (map (block_cell g b) [0..<9])" .
  qed
qed


lemma all_int_upto_8: "(\<forall>r \<in> set [0..8::int]. P r) \<longleftrightarrow> (\<forall>i < 9. P (int i))"
proof
  assume "\<forall>r \<in> set [0..8::int]. P r"
  then show "\<forall>i < 9. P (int i)" by auto
next
  assume h: "\<forall>i < 9. P (int i)"
  show "\<forall>r \<in> set [0..8::int]. P r"
  proof
    fix r assume "r \<in> set [0..8::int]"
    then have "r = int (nat r)" "nat r < 9" by auto
    then show "P r" using h by metis
  qed
qed


lemma block_positions:
  "(\<forall>p \<in> set (List.product [i \<leftarrow> [0..7::int]. i mod 3 = 0] [i \<leftarrow> [0..7::int]. i mod 3 = 0]). P p) \<longleftrightarrow>
     (\<forall>b < 9. P (int (3 * (b div 3)), int (3 * (b mod 3))))"
proof -
  have l: "[i \<leftarrow> [0..7::int]. i mod 3 = 0] = [0, 3, 6]" by (simp add: upto.simps)
  have a: "(\<forall>b < (9::nat). Q b) \<longleftrightarrow> (\<forall>b \<in> set [0..<9]. Q b)" for Q by auto
  show ?thesis unfolding l a by (simp add: upt_rec)
qed


lemma row_as_map: "shape9 g \<Longrightarrow> i < 9 \<Longrightarrow> g ! i = map (\<lambda>j. g ! i ! j) [0..<9]"
  by (metis map_nth shape9_row)


lemma col_as_map: "shape9 g \<Longrightarrow> map (\<lambda>row. row ! j) g = map (\<lambda>i. g ! i ! j) [0..<9]"
  by (simp add: shape9_def list_eq_iff_nth_eq)


text \<open>C30: on a 9x9 grid \<open>check_solution\<close> returns True exactly when every row, column and 3x3 block holds the digits 1 to 9.\<close>

theorem check_solution_spec:
  assumes "shape9 g"
  shows "check_solution g = Inr (valid_sudoku g)"
proof -
  have n: "int (length g) = 9" using assms by (simp add: shape9_def)
  have rows: "check_units (get_row g) (map (\<lambda>r. (r, 0 :: int)) [0..8]) =
                Inr (\<forall>i < 9. set (map (\<lambda>j. g ! i ! j) [0..<9]) = full_set)"
  proof -
    have "check_units (get_row g) (map (\<lambda>r. (r, 0 :: int)) [0..8]) =
            Inr (\<forall>p \<in> set (map (\<lambda>r. (r, 0 :: int)) [0..8]). set (g ! nat (fst p)) = full_set)"
      using assms by (intro check_units_Inr [where f = "\<lambda>p. g ! nat (fst p)"]) (auto simp: get_row_def shape9_def py_index_def)
    also have "(\<forall>p \<in> set (map (\<lambda>r. (r, 0 :: int)) [0..8]). set (g ! nat (fst p)) = full_set) \<longleftrightarrow>
                 (\<forall>i < 9. set (map (\<lambda>j. g ! i ! j) [0..<9]) = full_set)"
      using all_int_upto_8 [of "\<lambda>r. set (g ! nat r) = full_set"] row_as_map [OF assms] by simp
    finally show ?thesis .
  qed
  have cols: "check_units (get_col g) (map (\<lambda>c. (0 :: int, c)) [0..8]) =
                Inr (\<forall>j < 9. set (map (\<lambda>i. g ! i ! j) [0..<9]) = full_set)"
  proof -
    have "check_units (get_col g) (map (\<lambda>c. (0 :: int, c)) [0..8]) =
            Inr (\<forall>p \<in> set (map (\<lambda>c. (0 :: int, c)) [0..8]). set (map (\<lambda>row. row ! nat (snd p)) g) = full_set)"
      using assms
      by (intro check_units_Inr [where f = "\<lambda>p. map (\<lambda>row. row ! nat (snd p)) g"]) (auto simp: get_col_def shape9_def py_index_def intro!: seq_results_map_Inr)
    also have "(\<forall>p \<in> set (map (\<lambda>c. (0 :: int, c)) [0..8]). set (map (\<lambda>row. row ! nat (snd p)) g) = full_set) \<longleftrightarrow>
                 (\<forall>j < 9. set (map (\<lambda>i. g ! i ! j) [0..<9]) = full_set)"
      using all_int_upto_8 [of "\<lambda>c. set (map (\<lambda>row. row ! nat c) g) = full_set"] col_as_map [OF assms] by simp
    finally show ?thesis .
  qed
  have blocks: "check_units (get_block g)
                  (List.product [i \<leftarrow> [0..7]. i mod 3 = 0] [i \<leftarrow> [0..7]. i mod 3 = 0]) =
                Inr (\<forall>b < 9. set (map (block_cell g b) [0..<9]) = full_set)"
  proof -
    let ?ps = "List.product [i \<leftarrow> [0..7::int]. i mod 3 = 0] [i \<leftarrow> [0..7::int]. i mod 3 = 0]"
    have "\<forall>p \<in> set ?ps. get_block g p = Inr (block_of g (nat (fst p)) (nat (snd p)))"
      unfolding block_positions
    proof (intro allI impI)
      fix b :: nat assume b: "b < 9"
      have lt: "3 * (b div 3) < 9" "3 * (b mod 3) < 9" using b by linarith+
      show "get_block g (int (3 * (b div 3)), int (3 * (b mod 3))) =
                   Inr (block_of g (nat (fst (int (3 * (b div 3)), int (3 * (b mod 3)))))
                                   (nat (snd (int (3 * (b div 3)), int (3 * (b mod 3))))))"
        using get_block_shape9 [OF assms lt] by (simp only: fst_conv snd_conv nat_int)
    qed
    then have "check_units (get_block g) ?ps =
                 Inr (\<forall>p \<in> set ?ps. set (block_of g (nat (fst p)) (nat (snd p))) = full_set)"
      by (rule check_units_Inr)
    also have "(\<forall>p \<in> set ?ps. set (block_of g (nat (fst p)) (nat (snd p))) = full_set) \<longleftrightarrow>
                 (\<forall>b < 9. set (map (block_cell g b) [0..<9]) = full_set)"
      unfolding block_positions using set_block_of [OF assms] by simp
    finally show ?thesis .
  qed
  show ?thesis
    unfolding check_solution_def Let_def n
    by (simp add: rows cols blocks valid_sudoku_def)
qed


text \<open>C25: for a positive group size, \<open>group\<close> returns, given more fuel than the list has elements, a list of non-empty groups of at most \<open>n\<close> elements whose concatenation is the input.\<close>

theorem group_terminates:
  assumes "0 < n" "length xs < fuel"
  shows "\<exists>gs. group fuel xs n = Some gs \<and> concat gs = xs \<and> (\<forall>g \<in> set gs. g \<noteq> [] \<and> length g \<le> nat n)"
  using assms(2)
proof (induction fuel arbitrary: xs)
  case (Suc fuel)
  show ?case
  proof (cases "xs = []")
    case False
    have t: "py_take n xs = take (nat n) xs" "py_drop n xs = drop (nat n) xs"
      using assms(1) by (simp_all add: py_take_def py_drop_def)
    have p: "0 < nat n" using assms(1) by simp
    have "length xs - nat n < length xs" using False diff_less [OF p] by simp
    then have "length (drop (nat n) xs) < fuel" using Suc.prems by simp
    then obtain gs where gs: "group fuel (drop (nat n) xs) n = Some gs" "concat gs = drop (nat n) xs"
      "\<forall>g \<in> set gs. g \<noteq> [] \<and> length g \<le> nat n" using Suc.IH by blast
    have "take (nat n) xs \<noteq> []" using False assms(1) by simp
    then show ?thesis using gs False t by (intro exI [of _ "take (nat n) xs # gs"]) auto
  qed simp
qed simp


text \<open>C26: for a group size \<open>n \<le> 0\<close> the loop of \<open>group\<close> never empties a non-empty list: no fuel is enough, so \<open>group\<close> does not return.\<close>

theorem group_diverges: "n \<le> 0 \<Longrightarrow> xs \<noteq> [] \<Longrightarrow> group fuel xs n = None"
proof (induction fuel arbitrary: xs)
  case (Suc fuel)
  have "py_drop n xs \<noteq> []"
  proof (cases "n = 0")
    case False
    then have "nat (int (length xs) + n) < length xs" using Suc.prems
      by (cases "0 \<le> int (length xs) + n") (simp_all add: nat_less_iff)
    then show ?thesis using Suc.prems by (simp add: py_drop_def)
  qed (use Suc.prems in \<open>simp add: py_drop_def\<close>)
  then show ?case using Suc by simp
qed simp


lemma grid_at_int:
  "shape9 g \<Longrightarrow> 0 \<le> i \<Longrightarrow> i < 9 \<Longrightarrow> 0 \<le> j \<Longrightarrow> j < 9 \<Longrightarrow> grid_at g i j = Inr (g ! nat i ! nat j)"
  by (simp add: grid_at_def py_index_def shape9_def)


lemma grid_at_col9:
  "shape9 g \<Longrightarrow> 0 \<le> i \<Longrightarrow> i < 9 \<Longrightarrow> grid_at g i 9 = Inl IndexError"
  by (simp add: grid_at_def py_index_def shape9_def)


lemma diag_up_left_ok:
  "shape9 g \<Longrightarrow> 0 \<le> t \<Longrightarrow> t \<le> 8 \<Longrightarrow> 0 \<le> l \<Longrightarrow> l \<le> 8 \<Longrightarrow> \<exists>v. diag_up_left g t l acc = Inr v"
proof (induction g t l acc rule: diag_up_left.induct)
  case (1 grid t l acc)
  then show ?case by (subst diag_up_left.simps) (auto simp: grid_at_int)
qed


lemma diag_down_right_ok:
  "shape9 g \<Longrightarrow> 0 \<le> b \<Longrightarrow> b \<le> 9 \<Longrightarrow> 0 \<le> r \<Longrightarrow> r \<le> 9 \<Longrightarrow> \<exists>v. diag_down_right g b r acc = Inr v"
proof (induction g b r acc rule: diag_down_right.induct)
  case (1 grid b r acc)
  then show ?case by (subst diag_down_right.simps) (auto simp: grid_at_int)
qed


lemma diag_down_left_ok:
  "shape9 g \<Longrightarrow> 0 \<le> b \<Longrightarrow> b \<le> 9 \<Longrightarrow> -1 \<le> l \<Longrightarrow> l \<le> 8 \<Longrightarrow> \<exists>v. diag_down_left g b l acc = Inr v"
proof (induction g b l acc rule: diag_down_left.induct)
  case (1 grid b l acc)
  then show ?case by (subst diag_down_left.simps) (auto simp: grid_at_int)
qed


lemma diag_up_right_err:
  "shape9 g \<Longrightarrow> 0 \<le> t \<Longrightarrow> t \<le> 8 \<Longrightarrow> 0 \<le> r \<Longrightarrow> r \<le> 8 \<Longrightarrow> 9 \<le> t + r \<Longrightarrow>
     diag_up_right g t r acc = Inl IndexError"
proof (induction g t r acc rule: diag_up_right.induct)
  case (1 grid t r acc)
  show ?case
  proof (cases "r = 8")
    case True
    then show ?thesis using 1 by (subst diag_up_right.simps) (simp add: grid_at_col9)
  next
    case False
    then show ?thesis using 1 by (subst diag_up_right.simps) (auto simp: grid_at_int)
  qed
qed


lemma diag_up_right_ok:
  "shape9 g \<Longrightarrow> 0 \<le> t \<Longrightarrow> t \<le> 8 \<Longrightarrow> 0 \<le> r \<Longrightarrow> r \<le> 9 \<Longrightarrow> \<not> (r \<le> 8 \<and> 9 \<le> t + r) \<Longrightarrow>
     \<exists>v. diag_up_right g t r acc = Inr v"
proof (induction g t r acc rule: diag_up_right.induct)
  case (1 grid t r acc)
  then show ?case by (subst diag_up_right.simps) (auto simp: grid_at_int)
qed


text \<open>C31: on a 9x9 grid \<open>get_diagonal\<close> raises IndexError exactly at the positions below the anti-diagonal, \<open>r + c \<ge> 9\<close>: the loop up and to the right reads \<open>grid[top - 1][right + 1]\<close> with \<open>right + 1 = 9\<close>.\<close>

theorem get_diagonal_index_error:
  assumes "shape9 g" "0 \<le> r" "r \<le> 8" "0 \<le> c" "c \<le> 8"
  shows "get_diagonal g (r, c) = Inl IndexError \<longleftrightarrow> 9 \<le> r + c"
proof -
  obtain l1 where l1: "diag_up_left g r c [] = Inr l1" using diag_up_left_ok [OF assms] by blast
  obtain dl where dl: "diag_down_right g r c (rev l1) = Inr dl"
    using diag_down_right_ok [OF assms(1,2) _ assms(4)] assms(3,5) by fastforce
  show ?thesis
  proof (cases "9 \<le> r + c")
    case True
    then have "diag_up_right g r c [] = Inl IndexError" using diag_up_right_err [OF assms] by blast
    then show ?thesis using True l1 dl by (simp add: get_diagonal_def)
  next
    case False
    obtain r1 where r1: "diag_up_right g r c [] = Inr r1"
      using diag_up_right_ok [OF assms(1-4)] assms(5) False by fastforce
    obtain dr where dr: "diag_down_left g r c (rev r1) = Inr dr"
      using diag_down_left_ok [OF assms(1,2)] assms(3-5) by fastforce
    show ?thesis using False l1 dl r1 dr by (simp add: get_diagonal_def)
  qed
qed


text \<open>C27: when \<open>solve\<close> fails on a consistent grid, every cell it filled has been reset to \<open>"."\<close>: the grid it leaves is the grid it was given.\<close>

theorem solve_restores:
  assumes "good g" "iter_ok iter" "solve n iter g = Some (Inr (None, g'))"
  shows "g' = g"
  using solve_post_all [OF assms(2,1), of n] assms(3) by (simp add: solve_post_def)


text \<open>C28: when \<open>solve\<close> returns an answer for a consistent grid, the answer is a valid sudoku that keeps every given digit, and it is the grid \<open>solve\<close> mutated.\<close>

theorem solve_sound:
  assumes "good g" "iter_ok iter" "solve n iter g = Some (Inr (Some a, g'))"
  shows "valid_sudoku a \<and> extends g a \<and> a = g'"
  using solve_post_all [OF assms(2,1), of n] assms(3) by (auto simp: solve_post_def intro: good_solved_valid)


text \<open>C29: on a consistent grid \<open>solve\<close> returns, without raising, once it has more fuel than the grid has empty cells: the recursion depth is bounded by the number of dots.\<close>

theorem solve_terminates:
  assumes "good g" "iter_ok iter" "dots g < n"
  shows "\<exists>answer g'. solve n iter g = Some (Inr (answer, g'))"
  using solve_post_all [OF assms(2,1), of n] assms(3)
  by (auto simp: solve_post_def split: option.splits sum.splits)

lemma full_unit:
  assumes "set (map f [0..<9]) = full_set"
  shows "distinct (map f [0..<9])" "k < 9 \<Longrightarrow> f k \<in> sudoku_digits"
proof -
  have "card (set (map f [0..<9])) = length (map f [0..<9])"
    using assms card_digits by (simp add: full_set_eq)
  then show "distinct (map f [0..<9])" by (rule card_distinct)
  show "k < 9 \<Longrightarrow> f k \<in> sudoku_digits" using assms by (auto simp: full_set_eq [symmetric])
qed

lemma full_unit_ok: "set (map f [0..<9]) = full_set \<Longrightarrow> unit_ok f"
  unfolding unit_ok_def using full_unit(1) by (rule distinct_filter)

lemma valid_good:
  assumes "shape9 s" "valid_sudoku s"
  shows "good s" "no_dots s"
proof -
  have d: "s ! i ! j \<in> sudoku_digits" if "i < 9" "j < 9" for i j
    using assms(2) that full_unit(2) [of "\<lambda>j. s ! i ! j" j] by (simp add: valid_sudoku_def)
  have "consistent s" using assms(2) by (simp add: consistent_def valid_sudoku_def full_unit_ok)
  then show "good s" using assms(1) d by (simp add: good_def cells_ok_def)
  show "no_dots s" unfolding no_dots_def
  proof (intro allI impI)
    fix i j :: nat assume "i < 9" "j < 9"
    then have "s ! i ! j \<in> sudoku_digits" by (rule d)
    then show "s ! i ! j \<noteq> ''.''" using dot_notin_digits by auto
  qed
qed

lemma conflict_free_at:
  "conflict_free s U \<Longrightarrow> U r c i j \<Longrightarrow> (i, j) \<noteq> (r, c) \<Longrightarrow> i < 9 \<Longrightarrow> j < 9 \<Longrightarrow> r < 9 \<Longrightarrow> c < 9 \<Longrightarrow>
     s ! r ! c \<noteq> ''.'' \<Longrightarrow> s ! r ! c \<noteq> s ! i ! j"
  unfolding conflict_free_def by fastforce

lemma solution_cell_free:
  assumes s: "shape9 s" "good s" "no_dots s" and e: "extends g s"
    and rc: "r < 9" "c < 9" "g ! r ! c = ''.''" and ij: "i < 9" "j < 9"
    and U: "conflict_free s U" "U r c i j"
  shows "g ! i ! j \<noteq> s ! r ! c"
proof
  assume eq: "g ! i ! j = s ! r ! c"
  have nd: "s ! r ! c \<noteq> ''.''" using s(3) rc by (simp add: no_dots_def)
  then have ne: "g ! i ! j \<noteq> ''.''" using eq by simp
  then have "(i, j) \<noteq> (r, c)" using rc(3) by auto
  moreover have "g ! i ! j = s ! i ! j" using e ij ne by (simp add: extends_def)
  ultimately show False using conflict_free_at [OF U(1,2) _ ij rc(1,2) nd] eq by simp
qed

lemma solution_possible:
  assumes g: "shape9 g" and s: "shape9 s" "good s" "no_dots s" and e: "extends g s"
    and rc: "r < 9" "c < 9" "g ! r ! c = ''.''"
  shows "s ! r ! c \<in> possible g r c"
proof -
  have co: "conflict_free s same_row" "conflict_free s same_col" "conflict_free s same_block"
    using s(2) by (simp_all add: good_def consistent_iff_pos)
  have dig: "s ! r ! c \<in> sudoku_digits" using s(2,3) rc by (auto simp: good_def cells_ok_def no_dots_def)
  have lg: "length g = 9" "length (g ! r) = 9" using g rc shape9_row [OF g] by (simp_all add: shape9_def)
  have row: "s ! r ! c \<notin> set (g ! r)"
  proof
    assume "s ! r ! c \<in> set (g ! r)"
    then obtain j where "j < 9" "g ! r ! j = s ! r ! c" using lg by (auto simp: in_set_conv_nth)
    then show False using solution_cell_free [OF s e rc rc(1) _ co(1)] by (simp add: same_row_def)
  qed
  have col: "s ! r ! c \<notin> set (map (\<lambda>row. row ! c) g)"
  proof
    assume "s ! r ! c \<in> set (map (\<lambda>row. row ! c) g)"
    then obtain i where "i < 9" "g ! i ! c = s ! r ! c" using lg by (auto simp: in_set_conv_nth)
    then show False using solution_cell_free [OF s e rc _ rc(2) co(2)] by (simp add: same_col_def)
  qed
  have blk: "s ! r ! c \<notin> set (block_of g r c)"
  proof
    assume "s ! r ! c \<in> set (block_of g r c)"
    then obtain i j where "i < 9" "j < 9" "i div 3 = r div 3" "j div 3 = c div 3" "s ! r ! c = g ! i ! j"
      using in_block_of [OF g rc(1,2)] by blast
    then show False using solution_cell_free [OF s e rc, of i j, OF _ _ co(3)] by (simp add: same_block_def)
  qed
  show ?thesis using dig row col blk by (simp add: possible_def)
qed

lemma extends_set_solution:
  assumes "shape9 g" "r < 9" "c < 9" "extends g s"
  shows "extends (set_cell g (int r, int c) (s ! r ! c)) s"
  using assms by (auto simp: extends_def set_cell_nth)

lemma try_values_complete:
  assumes ok: "iter_ok iter"
    and IH: "\<And>g'. good g' \<Longrightarrow> extends g' s \<Longrightarrow> dots g' < n \<Longrightarrow> \<exists>a g''. solve n iter g' = Some (Inr (Some a, g''))"
    and b: "good b" "r < 9" "c < 9" "b ! r ! c = ''.''" "dots b < Suc n"
    and sol: "shape9 s" "good s" "no_dots s" "extends b s"
    and vs: "set vs \<subseteq> possible b r c" "s ! r ! c \<in> set vs"
  shows "\<exists>a g'. try_values n iter (int r, int c) vs (set_cell b (int r, int c) x) = Some (Inr (Some a, g'))"
  using vs
proof (induction vs arbitrary: x)
  case (Cons i vs)
  have sh: "shape9 b" using b(1) by (simp add: good_def)
  have ip: "i \<in> possible b r c" using Cons.prems by simp
  let ?g1 = "set_cell b (int r, int c) i"
  have g1: "good ?g1" using good_place [OF b(1-3) ip] .
  have ind: "i \<noteq> ''.''" using ip by (auto simp: possible_def)
  have d1: "dots ?g1 < n" using dots_set_cell [OF sh b(2-4) ind] b(5) by simp
  have step: "set_cell (set_cell b (int r, int c) x) (int r, int c) i = ?g1" by (rule set_cell_same [OF sh b(2)])
  have post: "solve_post n ?g1 (solve n iter ?g1)" using solve_post_all [OF ok g1] .
  show ?case
  proof (cases "i = s ! r ! c")
    case True
    have "extends ?g1 s" using extends_set_solution [OF sh b(2,3) sol(4)] True by simp
    then obtain a g'' where "solve n iter ?g1 = Some (Inr (Some a, g''))" using IH [OF g1 _ d1] by blast
    moreover have "good a" using post calculation by (auto simp: solve_post_def)
    ultimately show ?thesis by (simp add: step truthy_def good_not_Nil)
  next
    case False
    then have rest: "s ! r ! c \<in> set vs" using Cons.prems by simp
    show ?thesis
    proof (cases "solve n iter ?g1")
      case None
      then show ?thesis using post d1 by (simp add: solve_post_def)
    next
      case (Some res)
      show ?thesis
      proof (cases res)
        case (Inl e)
        then show ?thesis using post Some by (simp add: solve_post_def)
      next
        case (Inr ag)
        obtain answer g' where ag: "ag = (answer, g')" by (cases ag)
        show ?thesis
        proof (cases answer)
          case None
          then have "g' = ?g1" using post Some Inr ag by (simp add: solve_post_def)
          then have "try_values n iter (int r, int c) (i # vs) (set_cell b (int r, int c) x)
                       = try_values n iter (int r, int c) vs (set_cell b (int r, int c) i)"
            using Some Inr ag None by (simp add: step truthy_def)
          then show ?thesis using Cons.IH Cons.prems rest by simp
        next
          case (Some a)
          then have "good a" using post \<open>solve n iter ?g1 = Some res\<close> Inr ag by (auto simp: solve_post_def)
          then show ?thesis using \<open>solve n iter ?g1 = Some res\<close> Inr ag Some
            by (simp add: step truthy_def good_not_Nil)
        qed
      qed
    qed
  qed
qed simp

lemma possible_finite: "finite (possible g r c)"
  by (rule finite_subset [of _ sudoku_digits]) (auto simp: possible_def sudoku_digits_eq)

text \<open>C38: \<open>solve\<close> is complete: when the puzzle has a solution (a valid grid keeping
  every given digit), \<open>solve\<close> finds an answer, provided the iteration order lists
  every candidate and the fuel exceeds the number of empty cells.  Backtracking over
  a candidate that fails restores the grid, so the search reaches the solution's digit.\<close>

theorem solve_complete:
  assumes "iter_complete iter" "shape9 s" "valid_sudoku s"
  shows "good g \<Longrightarrow> extends g s \<Longrightarrow> dots g < n \<Longrightarrow> \<exists>a g'. solve n iter g = Some (Inr (Some a, g'))"
proof (induction n arbitrary: g)
  case (Suc n)
  have ok: "iter_ok iter" using assms(1) by (simp add: iter_complete_def)
  have sv: "good s" "no_dots s" using valid_good [OF assms(2,3)] by simp_all
  have sh: "shape9 g" using Suc.prems by (simp add: good_def)
  show ?case
  proof (cases "find_empty_positions g")
    case (Inl e)
    then show ?thesis using find_empty_not_Inl [OF sh] by simp
  next
    case (Inr p)
    show ?thesis
    proof (cases p)
      case None
      then show ?thesis using Inr by simp
    next
      case (Some pos)
      then obtain r c where rc: "pos = (int r, int c)" "r < 9" "c < 9" "g ! r ! c = ''.''"
        using find_empty_Some [OF sh] Inr by blast
      have fp: "find_possible_values g pos = Inr (possible g r c)"
        using rc by (simp add: find_possible_shape9 [OF sh] possible_def)
      have sub: "set (iter (possible g r c)) \<subseteq> possible g r c" using ok by (simp add: iter_ok_def)
      have "s ! r ! c \<in> possible g r c"
        using solution_possible [OF sh assms(2) sv Suc.prems(2) rc(2-4)] .
      moreover have "possible g r c \<subseteq> set (iter (possible g r c))"
        using assms(1) possible_finite [of g r c] unfolding iter_complete_def by blast
      ultimately have mem: "s ! r ! c \<in> set (iter (possible g r c))" by blast
      have "\<exists>a g'. try_values n iter (int r, int c) (iter (possible g r c)) (set_cell g (int r, int c) ''.'')
               = Some (Inr (Some a, g'))"
        by (rule try_values_complete [OF ok Suc.IH Suc.prems(1) rc(2-4) Suc.prems(3) assms(2) sv Suc.prems(2) sub mem])
      then show ?thesis using Inr Some rc fp by (simp add: set_cell_id)
    qed
  qed
qed simp

subsection \<open>Examples\<close>

lemma iter_ok_sorted: "iter_ok sorted_list_of_set"
  unfolding iter_ok_def
proof
  fix S :: "'a::linorder set"
  show "set (sorted_list_of_set S) \<subseteq> S" by (cases "finite S") simp_all
qed


lemma good_sample_puzzle: "good sample_puzzle"
  by code_simp


lemma good_stuck_puzzle: "good stuck_puzzle"
  by code_simp


theorem solve_sound_witness:
  "solve 3 sorted_list_of_set sample_puzzle = Some (Inr (Some sample_solution, sample_solution))
   \<and> valid_sudoku sample_solution"
proof -
  have s: "solve 3 sorted_list_of_set sample_puzzle = Some (Inr (Some sample_solution, sample_solution))"
    by code_simp
  show ?thesis using solve_sound [OF good_sample_puzzle iter_ok_sorted s] s by simp
qed


theorem solve_restores_witness:
  "solve 5 sorted_list_of_set stuck_puzzle = Some (Inr (None, stuck_puzzle))"
proof -
  have s: "solve 5 sorted_list_of_set stuck_puzzle = Some (Inr (None, stuck_puzzle))"
    by code_simp
  show ?thesis using solve_restores [OF good_stuck_puzzle iter_ok_sorted s] s by simp
qed

theorem group_terminates_witness:
  "group 4 [1::int, 2, 3] 2 = Some [[1, 2], [3]]"
proof -
  have "group 4 [1::int, 2, 3] 2 = Some [[1, 2], [3]]" by code_simp
  then show ?thesis using group_terminates [of 2 "[1::int, 2, 3]" 4] by simp
qed

theorem group_diverges_witness: "group 10 [1::int, 2] 0 = None"
  using group_diverges [of 0 "[1::int, 2]" 10] by simp

theorem solve_terminates_witness:
  "dots sample_puzzle = 2 \<and> (\<exists>answer g'. solve 3 sorted_list_of_set sample_puzzle = Some (Inr (answer, g')))"
proof -
  have d: "dots sample_puzzle = 2" by code_simp
  then show ?thesis using solve_terminates [OF good_sample_puzzle iter_ok_sorted, of 3] by simp
qed

theorem check_solution_spec_witness:
  "check_solution sample_solution = Inr True \<and> valid_sudoku sample_solution"
proof -
  have s: "shape9 sample_solution" by code_simp
  have c: "check_solution sample_solution = Inr True" by code_simp
  show ?thesis using check_solution_spec [OF s] c by simp
qed

theorem get_diagonal_index_error_witness:
  "get_diagonal diagonal_doc_grid (7, 7) = Inl IndexError
   \<and> get_diagonal diagonal_doc_grid (2, 6) \<noteq> Inl IndexError"
proof -
  have s: "shape9 diagonal_doc_grid" by code_simp
  show ?thesis
    using get_diagonal_index_error [OF s, of 7 7] get_diagonal_index_error [OF s, of 2 6] by simp
qed

lemma iter_complete_sorted: "iter_complete sorted_list_of_set"
  by (simp add: iter_complete_def iter_ok_sorted)

theorem solve_complete_witness:
  "valid_sudoku sample_solution \<and> extends sample_puzzle sample_solution
   \<and> (\<exists>a g'. solve 3 sorted_list_of_set sample_puzzle = Some (Inr (Some a, g')))"
proof -
  have sh: "shape9 sample_solution" by code_simp
  have v: "valid_sudoku sample_solution"
  proof (rule good_solved_valid)
    show "good sample_solution" by code_simp
    show "no_dots sample_solution" by code_simp
  qed
  have l: "length sample_solution = 9" "length (sample_solution ! 0) = 9" by (simp_all add: sample_solution_def)
  then have e: "extends sample_puzzle sample_solution" by (auto simp: extends_def sample_puzzle_def nth_list_update)
  have d: "dots sample_puzzle < 3" by code_simp
  show ?thesis using solve_complete [OF iter_complete_sorted sh v good_sample_puzzle e d] v e by simp
qed

subsection \<open>Display and generation\<close>

lemma gen_loop_None: "gen_loop rs (Suc k) None = None"
  by (induction rs) simp_all

lemma in_upto_0_8: "x \<in> set [0..8::int] \<Longrightarrow> \<exists>i<9. x = int i"
  by (rule exI [of _ "nat x"]) auto

lemma display_row_shape9:
  assumes "shape9 g" "row \<in> set [0..8]"
  shows "display_row g row = Inr (display_line g row)"
proof -
  have "\<forall>col \<in> set [0..8]. map_sum id (\<lambda>v. py_center 2 v @ (if col \<in> {2, 5} then ''|'' else [])) (grid_at g row col)
          = Inr (py_center 2 (g ! nat row ! nat col) @ (if col \<in> {2, 5} then ''|'' else []))"
  proof
    fix col :: int
    assume "col \<in> set [0..8]"
    then obtain j where "j < 9" "col = int j" using in_upto_0_8 by blast
    moreover obtain i where "i < 9" "row = int i" using assms(2) in_upto_0_8 by blast
    ultimately show "map_sum id (\<lambda>v. py_center 2 v @ (if col \<in> {2, 5} then ''|'' else [])) (grid_at g row col)
          = Inr (py_center 2 (g ! nat row ! nat col) @ (if col \<in> {2, 5} then ''|'' else []))"
      using grid_at_shape9 [OF assms(1)] by simp
  qed
  from seq_results_map_Inr [OF this] show ?thesis
    unfolding display_row_def display_line_def by simp
qed

lemma display_shape9:
  assumes "shape9 g"
  shows "display g = Inr (concat (map (\<lambda>row. if row \<in> {2, 5} then [display_line g row, ''------+------+------'']
                                           else [display_line g row]) [0..8]) @ [[]])"
proof -
  have "\<forall>row \<in> set [0..8]. map_sum id (\<lambda>l. if row \<in> {2, 5} then [l, ''------+------+------''] else [l]) (display_row g row)
          = Inr (if row \<in> {2, 5} then [display_line g row, ''------+------+------''] else [display_line g row])"
    using display_row_shape9 [OF assms] by simp
  from seq_results_map_Inr [OF this] show ?thesis
    unfolding display_def by simp
qed

lemma display_length: "shape9 g \<Longrightarrow> \<exists>ls. display g = Inr ls \<and> length ls = 12"
  by (simp add: display_shape9 upto_rec1 del: upto_rec_numeral)
end
