(* ===== verification/Life.thy ===== *)
theory Life
  imports Complex_Main Prelude
begin

text \<open>
  The game of life of \<open>src/homework03/life.py\<close>: the class \<open>GameOfLife\<close> as a
  record, its methods as functions of the record, and the loop of
  \<open>Console.run\<close> (\<open>life_console.py\<close>) without its drawing.  Cells are Python
  integers, so a grid read from a file may hold any digit; every list access is
  \<^const>\<open>py_index\<close>.  The random grid of \<open>create_grid(randomize=True)\<close> is an input.
\<close>

type_synonym lgrid = "int list list"
type_synonym cell = "int \<times> int"

text \<open>\<open>max_generations\<close> is an optional float compared with \<open>==\<close> to the integer
  generation counter: \<open>None\<close> and \<open>float("inf")\<close> never equal it.\<close>

datatype gen_limit = NoLimit | Limit real

record game =
  rows :: int
  cols :: int
  prev_generation :: lgrid
  curr_generation :: lgrid
  max_generations :: gen_limit
  generations :: int

subsection \<open>Construction\<close>

text \<open>\<open>create_grid(randomize=False)\<close>: \<open>range\<close> of a negative size is empty.\<close>

definition life_create_grid :: "int \<Rightarrow> int \<Rightarrow> lgrid" where
  "life_create_grid r c = replicate (nat r) (replicate (nat c) 0)"

text \<open>\<open>GameOfLife(size, randomize, max_generations)\<close>, where \<open>rnd\<close> is what
  \<open>create_grid(randomize=randomize)\<close> returned.  \<open>minisum\<close> is only read by
  \<open>checking\<close>, which raises before reading it.\<close>

definition game_init :: "int \<times> int \<Rightarrow> lgrid \<Rightarrow> gen_limit \<Rightarrow> game" where
  "game_init sz rnd mg =
     (case sz of (r, c) \<Rightarrow>
        \<lparr>rows = r, cols = c, prev_generation = life_create_grid r c,
         curr_generation = rnd, max_generations = mg, generations = 1\<rparr>)"

subsection \<open>Neighbours and the next generation\<close>

definition cell_at :: "lgrid \<Rightarrow> int \<Rightarrow> int \<Rightarrow> int result" where
  "cell_at grid i j = rbind (py_index grid i) (\<lambda>row. py_index row j)"

text \<open>The two nested \<open>range\<close> loops of \<open>get_neighbours\<close>, the cell itself skipped.\<close>

definition neighbour_positions :: "game \<Rightarrow> cell \<Rightarrow> cell list" where
  "neighbour_positions g cell =
     (case cell of (row, col) \<Rightarrow>
        filter (\<lambda>p. p \<noteq> cell)
          (List.product [max 0 (row - 1) .. min (rows g) (row + 2) - 1]
                        [max 0 (col - 1) .. min (cols g) (col + 2) - 1]))"

definition get_neighbours :: "game \<Rightarrow> cell \<Rightarrow> int list result" where
  "get_neighbours g cell =
     seq_results (map (\<lambda>(i, j). cell_at (curr_generation g) i j) (neighbour_positions g cell))"

text \<open>\<open>copy_grid[i][j] = 1\<close>, always in range of the \<open>rows\<close> by \<open>cols\<close> copy.\<close>

definition set_alive :: "lgrid \<Rightarrow> int \<Rightarrow> int \<Rightarrow> lgrid" where
  "set_alive grid i j = grid[nat i := (grid ! nat i)[nat j := 1]]"

text \<open>The loop body of \<open>get_next_generation\<close>: the neighbours are summed only
  in the branch whose test on the cell succeeds, as Python's \<open>and\<close> short-circuits.\<close>

fun next_loop :: "game \<Rightarrow> lgrid \<Rightarrow> cell list \<Rightarrow> lgrid result" where
  "next_loop g copy [] = Inr copy"
| "next_loop g copy ((i, j) # ps) =
     rbind (cell_at (curr_generation g) i j) (\<lambda>v.
       if v = 0 then
         rbind (get_neighbours g (i, j)) (\<lambda>ns.
           if sum_list ns = 3 then next_loop g (set_alive copy i j) ps else next_loop g copy ps)
       else if v = 1 then
         rbind (get_neighbours g (i, j)) (\<lambda>ns.
           if 1 < sum_list ns \<and> sum_list ns < 4 then next_loop g (set_alive copy i j) ps
           else next_loop g copy ps)
       else next_loop g copy ps)"

definition board :: "game \<Rightarrow> cell list" where
  "board g = List.product [0 .. rows g - 1] [0 .. cols g - 1]"

definition get_next_generation :: "game \<Rightarrow> lgrid result" where
  "get_next_generation g = next_loop g (life_create_grid (rows g) (cols g)) (board g)"

text \<open>\<open>step\<close> copies the current generation into \<open>prev_generation\<close> before it
  computes the next one.\<close>

definition step :: "game \<Rightarrow> game result" where
  "step g =
     (let g1 = g\<lparr>prev_generation := curr_generation g\<rparr> in
      rbind (get_next_generation g1) (\<lambda>ng.
        Inr (g1\<lparr>curr_generation := ng, generations := generations g1 + 1\<rparr>)))"

subsection \<open>Counters and tests\<close>

fun sum_loop :: "lgrid \<Rightarrow> int \<Rightarrow> cell list \<Rightarrow> int result" where
  "sum_loop grid acc [] = Inr acc"
| "sum_loop grid acc ((i, j) # ps) = rbind (cell_at grid i j) (\<lambda>v. sum_loop grid (acc + v) ps)"

definition elements_sum :: "game \<Rightarrow> int result" where
  "elements_sum g = sum_loop (curr_generation g) 0 (board g)"

text \<open>\<open>checking\<close> binds \<open>el_sum = self.elements_sum\<close>, the bound method, without
  calling it; its first statement \<open>el_sum < self.minisum\<close> compares a method with a
  float, which raises \<open>TypeError\<close> whatever the state.\<close>

definition life_checking :: "game \<Rightarrow> bool result" where
  "life_checking g = Inl TypeError"

definition is_max_generations_exceeded :: "game \<Rightarrow> bool" where
  "is_max_generations_exceeded g =
     (case max_generations g of NoLimit \<Rightarrow> False | Limit m \<Rightarrow> of_int (generations g) = m)"

definition is_changing :: "game \<Rightarrow> bool" where
  "is_changing g \<longleftrightarrow> prev_generation g \<noteq> curr_generation g"

subsection \<open>Files\<close>

text \<open>Iterating over a text file: lines keep their newline, and a last line
  without one is kept.  The input is the text after universal-newline translation.\<close>

definition file_lines :: "string \<Rightarrow> string list" where
  "file_lines s =
     (let ps = py_split (CHR 0x0A) s in
      map (\<lambda>l. l @ [CHR 0x0A]) (butlast ps) @ (if last ps = [] then [] else [last ps]))"

text \<open>\<open>int(c)\<close> of a one-character string: a decimal digit, else \<open>ValueError\<close>.\<close>

definition int_of_char :: "char \<Rightarrow> int result" where
  "int_of_char c =
     (let n = of_char c in if 48 \<le> n \<and> n \<le> (57 :: nat) then Inr (int n - 48) else Inl ValueError)"

definition parse_row :: "string \<Rightarrow> int list result" where
  "parse_row l = seq_results (map int_of_char (py_strip l))"

text \<open>\<open>from_file\<close> of the file's text; the game is built with the defaults
  (random grid \<open>rnd\<close>, no limit), then its current generation is replaced.\<close>

definition from_file :: "string \<Rightarrow> lgrid \<Rightarrow> game result" where
  "from_file text rnd =
     rbind (seq_results (map parse_row (file_lines text))) (\<lambda>doc_grid.
       rbind (py_index doc_grid 0) (\<lambda>row0.
         Inr ((game_init (int (length doc_grid), int (length row0)) rnd NoLimit)
                \<lparr>curr_generation := doc_grid\<rparr>)))"

definition save :: "game \<Rightarrow> string" where
  "save g = concat (map (\<lambda>row. concat (map py_str row) @ [CHR 0x0A]) (curr_generation g))"

subsection \<open>The console loop\<close>

text \<open>\<open>Console.run\<close> without drawing and sleeping; \<open>None\<close> is running out of fuel.\<close>

fun console_run :: "nat \<Rightarrow> game \<Rightarrow> game result option" where
  "console_run 0 g = None"
| "console_run (Suc n) g =
     (if \<not> is_max_generations_exceeded g \<and> is_changing g then
        (case step g of
           Inl e \<Rightarrow> Some (Inl e)
         | Inr g' \<Rightarrow>
             (case life_checking g' of
                Inl e \<Rightarrow> Some (Inl e)
              | Inr True \<Rightarrow> Some (Inr g')
              | Inr False \<Rightarrow> console_run n g'))
      else Some (Inr g))"

subsection \<open>The Conway rule, and what a well-formed game is\<close>

text \<open>\<open>conway\<close> is the rule of the game on sets of live cells of a bounded board;
  \<open>live\<close> abstracts a game to its live cells, \<open>wf_game\<close> is the invariant of a game
  built by the constructor with a 0/1 grid, and \<open>next_grid\<close> the reference
  next generation that the loop of \<open>get_next_generation\<close> computes.\<close>

definition wf_game :: "game \<Rightarrow> bool" where
  "wf_game g \<longleftrightarrow> 0 \<le> rows g \<and> 0 \<le> cols g \<and> length (curr_generation g) = nat (rows g) \<and>
     (\<forall>row \<in> set (curr_generation g). length row = nat (cols g) \<and> set row \<subseteq> {0, 1})"

definition in_board :: "game \<Rightarrow> cell \<Rightarrow> bool" where
  "in_board g p \<longleftrightarrow> 0 \<le> fst p \<and> fst p < rows g \<and> 0 \<le> snd p \<and> snd p < cols g"

definition cell_val :: "game \<Rightarrow> cell \<Rightarrow> int" where
  "cell_val g p = curr_generation g ! nat (fst p) ! nat (snd p)"

definition live :: "game \<Rightarrow> cell set" where
  "live g = {p. in_board g p \<and> cell_val g p = 1}"

definition nbrs :: "cell \<Rightarrow> cell set" where
  "nbrs p = {q. q \<noteq> p \<and> \<bar>fst q - fst p\<bar> \<le> 1 \<and> \<bar>snd q - snd p\<bar> \<le> 1}"

definition conway :: "int \<Rightarrow> int \<Rightarrow> cell set \<Rightarrow> cell set" where
  "conway R C S = {p. 0 \<le> fst p \<and> fst p < R \<and> 0 \<le> snd p \<and> snd p < C \<and>
      (if p \<in> S then card (nbrs p \<inter> S) \<in> {2, 3} else card (nbrs p \<inter> S) = 3)}"

definition conway_alive :: "game \<Rightarrow> cell \<Rightarrow> bool" where
  "conway_alive g p \<longleftrightarrow>
     (cell_val g p = 0 \<and> card (nbrs p \<inter> live g) = 3) \<or> (cell_val g p = 1 \<and> card (nbrs p \<inter> live g) \<in> {2, 3})"

definition alive_upd :: "game \<Rightarrow> lgrid \<Rightarrow> cell \<Rightarrow> lgrid" where
  "alive_upd g cp p = (if conway_alive g p then set_alive cp (fst p) (snd p) else cp)"

definition rect :: "nat \<Rightarrow> nat \<Rightarrow> lgrid \<Rightarrow> bool" where
  "rect R C grid \<longleftrightarrow> length grid = R \<and> (\<forall>row \<in> set grid. length row = C)"

definition next_grid :: "game \<Rightarrow> lgrid" where
  "next_grid g = map (\<lambda>a. map (\<lambda>b. if conway_alive g (int a, int b) then 1 else 0) [0..<nat (cols g)]) [0..<nat (rows g)]"

definition offsets :: "cell set" where
  "offsets = {-1, 0, 1} \<times> {-1, 0, 1} - {(0, 0)}"

subsection \<open>Sample games\<close>

definition glider :: lgrid where
  "glider = [[0, 1, 0, 0], [0, 0, 1, 0], [1, 1, 1, 0], [0, 0, 0, 0]]"

definition glider_game :: game where
  "glider_game = game_init (4, 4) glider (Limit 50)"

definition ragged_game :: game where
  "ragged_game = (game_init (2, 2) [] NoLimit)\<lparr>curr_generation := [[0, 1], [1]]\<rparr>"

subsection \<open>Neighbours, the next generation, files and the console loop\<close>

lemma abs_le1_int: "\<bar>x\<bar> \<le> (1 :: int) \<Longrightarrow> x = -1 \<or> x = 0 \<or> x = 1"
  by (cases "x < 0") auto

lemma offsets_explicit: "offsets = {(-1, -1), (-1, 0), (-1, 1), (0, -1), (0, 1), (1, -1), (1, 0), (1, 1)}"
  by (auto simp: offsets_def)

lemma card_offsets: "card offsets = 8"
  by (simp add: offsets_explicit)

lemma nbrs_offsets: "nbrs p \<subseteq> (\<lambda>d. (fst p + fst d, snd p + snd d)) ` offsets"
proof
  fix q assume q: "q \<in> nbrs p"
  then have "\<bar>fst q - fst p\<bar> \<le> 1" "\<bar>snd q - snd p\<bar> \<le> 1" by (simp_all add: nbrs_def)
  note a = abs_le1_int [OF this(1)] and b = abs_le1_int [OF this(2)]
  have "q \<noteq> p" using q by (simp add: nbrs_def)
  then have "(fst q - fst p, snd q - snd p) \<noteq> (0, 0)" by (simp add: prod_eq_iff)
  then have "(fst q - fst p, snd q - snd p) \<in> offsets" using a b by (simp add: offsets_def) blast
  then show "q \<in> (\<lambda>d. (fst p + fst d, snd p + snd d)) ` offsets"
    by (rule rev_image_eqI) simp
qed

lemma finite_nbrs [simp]: "finite (nbrs p)"
  by (rule finite_subset [OF nbrs_offsets]) (simp add: offsets_def)

lemma card_nbrs_le: "card (nbrs p) \<le> 8"
proof -
  have "card (nbrs p) \<le> card ((\<lambda>d. (fst p + fst d, snd p + snd d)) ` offsets)"
    by (rule card_mono [OF _ nbrs_offsets]) (simp add: offsets_def)
  also have "\<dots> \<le> card offsets" by (rule card_image_le) (simp add: offsets_def)
  finally show ?thesis by (simp add: card_offsets)
qed

lemma cell_at_wf:
  assumes "wf_game g" "in_board g (i, j)"
  shows "cell_at (curr_generation g) i j = Inr (cell_val g (i, j))"
proof -
  have i: "nat i < length (curr_generation g)" using assms by (simp add: wf_game_def in_board_def)
  then have "length (curr_generation g ! nat i) = nat (cols g)"
    using assms(1) nth_mem unfolding wf_game_def by blast
  then show ?thesis using assms i by (simp add: cell_at_def py_index_def in_board_def cell_val_def)
qed

lemma set_neighbour_positions:
  "set (neighbour_positions g p) = {q. in_board g q} \<inter> nbrs p"
  by (cases p) (auto simp: neighbour_positions_def in_board_def nbrs_def)

lemma distinct_neighbour_positions: "distinct (neighbour_positions g p)"
  by (cases p) (simp add: neighbour_positions_def distinct_product)

lemma get_neighbours_wf:
  "wf_game g \<Longrightarrow> get_neighbours g p = Inr (map (cell_val g) (neighbour_positions g p))"
  unfolding get_neighbours_def
  by (rule seq_results_map_Inr) (auto simp: set_neighbour_positions cell_at_wf)

lemma sum_list_01:
  "distinct xs \<Longrightarrow> (\<forall>x \<in> set xs. f x \<in> {0, 1 :: int}) \<Longrightarrow>
     sum_list (map f xs) = int (card {x \<in> set xs. f x = 1})"
proof (induction xs)
  case (Cons a xs)
  have e: "{x \<in> set (a # xs). f x = 1} =
            (if f a = 1 then insert a {x \<in> set xs. f x = 1} else {x \<in> set xs. f x = 1})" by auto
  have n: "a \<notin> {x \<in> set xs. f x = 1}" using Cons.prems by simp
  have fin: "finite {x \<in> set xs. f x = 1}" by simp
  have c: "int (card {x \<in> set (a # xs). f x = 1}) =
                  (if f a = 1 then 1 else 0) + int (card {x \<in> set xs. f x = 1})"
    unfolding e using card_insert_disjoint [OF fin n] by simp
  have "f a = 0 \<or> f a = 1" using Cons.prems by simp
  then show ?case using Cons c by auto
qed simp

lemma cell_val_01: "wf_game g \<Longrightarrow> in_board g p \<Longrightarrow> cell_val g p \<in> {0, 1}"
proof -
  assume w: "wf_game g" and b: "in_board g p"
  then have i: "nat (fst p) < length (curr_generation g)" by (simp add: wf_game_def in_board_def)
  then have "curr_generation g ! nat (fst p) \<in> set (curr_generation g)" by simp
  then have "length (curr_generation g ! nat (fst p)) = nat (cols g)"
     "set (curr_generation g ! nat (fst p)) \<subseteq> {0, 1}" using w by (simp_all add: wf_game_def)
  then have "cell_val g p \<in> set (curr_generation g ! nat (fst p))"
    using b by (simp add: cell_val_def in_board_def)
  then show ?thesis using \<open>set (curr_generation g ! nat (fst p)) \<subseteq> {0, 1}\<close> by blast
qed

lemma neighbour_sum:
  assumes "wf_game g"
  shows "sum_list (map (cell_val g) (neighbour_positions g p)) = int (card (nbrs p \<inter> live g))"
proof -
  have "{x \<in> set (neighbour_positions g p). cell_val g x = 1} = nbrs p \<inter> live g"
    by (auto simp: set_neighbour_positions live_def)
  moreover have "\<forall>x \<in> set (neighbour_positions g p). cell_val g x \<in> {0, 1}"
    using assms cell_val_01 by (simp add: set_neighbour_positions)
  ultimately show ?thesis using sum_list_01 [OF distinct_neighbour_positions] by metis
qed

lemma length_neighbour_positions: "length (neighbour_positions g p) \<le> 8"
proof -
  have "length (neighbour_positions g p) = card (set (neighbour_positions g p))"
    by (simp add: distinct_card distinct_neighbour_positions)
  also have "\<dots> \<le> card (nbrs p)" by (rule card_mono) (auto simp: set_neighbour_positions)
  finally show ?thesis using card_nbrs_le [of p] by simp
qed

text \<open>C34: on a well-formed game, get_neighbours of any cell succeeds with at most 8 values, and their sum, the live-neighbour count, lies between 0 and 8 and is the number of live cells adjacent to the cell.\<close>

theorem get_neighbours_bounds:
  assumes "wf_game g"
  shows "\<exists>ns. get_neighbours g p = Inr ns \<and> length ns \<le> 8 \<and> 0 \<le> sum_list ns \<and> sum_list ns \<le> 8
             \<and> sum_list ns = int (card (nbrs p \<inter> live g))"
proof -
  have "card (nbrs p \<inter> live g) \<le> 8" using card_mono [of "nbrs p" "nbrs p \<inter> live g"] card_nbrs_le [of p] by simp
  then show ?thesis using assms length_neighbour_positions [of g p]
    by (simp add: get_neighbours_wf neighbour_sum)
qed

lemma next_loop_fold:
  assumes "wf_game g" "\<forall>p \<in> set ps. in_board g p"
  shows "next_loop g copy ps = Inr (foldl (alive_upd g) copy ps)"
  using assms(2)
proof (induction ps arbitrary: copy)
  case (Cons p ps)
  obtain i j where p: "p = (i, j)" by (cases p)
  have b: "in_board g (i, j)" using Cons.prems p by simp
  have ca: "cell_at (curr_generation g) i j = Inr (cell_val g (i, j))" by (rule cell_at_wf [OF assms(1) b])
  have gn: "get_neighbours g (i, j) = Inr (map (cell_val g) (neighbour_positions g (i, j)))"
    by (rule get_neighbours_wf [OF assms(1)])
  have s: "sum_list (map (cell_val g) (neighbour_positions g (i, j))) = int (card (nbrs (i, j) \<inter> live g))"
    by (rule neighbour_sum [OF assms(1)])
  have ih: "\<And>c. next_loop g c ps = Inr (foldl (alive_upd g) c ps)" using Cons by simp
  have v: "cell_val g (i, j) = 0 \<or> cell_val g (i, j) = 1" using cell_val_01 [OF assms(1) b] by simp
  have a: "1 < int k \<and> int k < 4 \<longleftrightarrow> k \<in> {2, 3}" for k :: nat by auto
  have u: "alive_upd g copy (i, j) = (if conway_alive g (i, j) then set_alive copy i j else copy)"
    by (simp add: alive_upd_def)
  show ?case using v
    by (auto simp: p ca gn s ih a u conway_alive_def)
qed simp

lemma set_alive_rect:
  assumes "rect R C cp"
  shows "rect R C (set_alive cp i j)"
proof (cases "nat i < length cp")
  case True
  then have "length ((cp ! nat i)[nat j := 1]) = C" using assms by (simp add: rect_def)
  then show ?thesis using assms
    by (auto simp: rect_def set_alive_def dest!: set_update_subset_insert [THEN subsetD])
qed (use assms in \<open>simp add: set_alive_def list_update_beyond\<close>)

lemma set_alive_nth:
  assumes "rect R C cp" "a < R" "b < C"
  shows "set_alive cp i j ! a ! b = (if a = nat i \<and> b = nat j then 1 else cp ! a ! b)"
proof -
  have "length (cp ! a) = C" using assms by (simp add: rect_def)
  then show ?thesis using assms
    by (cases "a = nat i") (auto simp: set_alive_def rect_def nth_list_update)
qed

lemma foldl_alive:
  assumes "rect R C cp" "\<forall>p \<in> set ps. 0 \<le> fst p \<and> 0 \<le> snd p"
  shows "rect R C (foldl (alive_upd g) cp ps) \<and>
         (\<forall>a < R. \<forall>b < C. foldl (alive_upd g) cp ps ! a ! b =
            (if (int a, int b) \<in> set ps \<and> conway_alive g (int a, int b) then 1 else cp ! a ! b))"
  using assms
proof (induction ps arbitrary: cp)
  case (Cons p ps)
  have r: "rect R C (alive_upd g cp p)" using Cons.prems(1) by (simp add: alive_upd_def set_alive_rect)
  have n: "alive_upd g cp p ! a ! b = (if p = (int a, int b) \<and> conway_alive g p then 1 else cp ! a ! b)"
    if "a < R" "b < C" for a b
    using Cons.prems that set_alive_nth [OF Cons.prems(1) that] by (auto simp: alive_upd_def prod_eq_iff)
  show ?case using Cons.IH [OF r] Cons.prems(2) n by auto
qed simp

lemma set_board: "set (board g) = {p. in_board g p}"
  by (auto simp: board_def in_board_def)

lemma rect_create_grid: "rect (nat R) (nat C) (life_create_grid R C)"
  by (simp add: rect_def life_create_grid_def)

lemma get_next_generation_eq:
  assumes "wf_game g"
  shows "get_next_generation g = Inr (next_grid g)"
proof -
  let ?z = "life_create_grid (rows g) (cols g)"
  have l: "get_next_generation g = Inr (foldl (alive_upd g) ?z (board g))"
    unfolding get_next_generation_def using assms by (simp add: next_loop_fold set_board)
  have nn: "\<forall>p \<in> set (board g). 0 \<le> fst p \<and> 0 \<le> snd p" by (simp add: set_board in_board_def)
  note f = foldl_alive [OF rect_create_grid [of "rows g" "cols g"] nn, where g = g]
  have "foldl (alive_upd g) ?z (board g) = next_grid g"
  proof (rule nth_equalityI)
    show "length (foldl (alive_upd g) ?z (board g)) = length (next_grid g)"
      using f by (simp add: rect_def next_grid_def)
  next
    fix a assume a: "a < length (foldl (alive_upd g) ?z (board g))"
    then have a': "a < nat (rows g)" using f by (simp add: rect_def)
    then have len: "length (foldl (alive_upd g) ?z (board g) ! a) = nat (cols g)"
      using f nth_mem unfolding rect_def by metis
    show "foldl (alive_upd g) ?z (board g) ! a = next_grid g ! a"
    proof (rule nth_equalityI)
      show "length (foldl (alive_upd g) ?z (board g) ! a) = length (next_grid g ! a)"
        using a' len by (simp add: next_grid_def)
    next
      fix b assume "b < length (foldl (alive_upd g) ?z (board g) ! a)"
      then have b: "b < nat (cols g)" using len by simp
      have "int a < rows g" "int b < cols g" using a' b by simp_all
      then show "foldl (alive_upd g) ?z (board g) ! a ! b = next_grid g ! a ! b"
        using f [THEN conjunct2, rule_format, OF a' b] a' b
        by (simp add: next_grid_def set_board in_board_def life_create_grid_def)
    qed
  qed
  then show ?thesis using l by simp
qed

lemma next_grid_prev [simp]: "next_grid (g\<lparr>prev_generation := x\<rparr>) = next_grid g"
  by (simp add: next_grid_def conway_alive_def cell_val_def live_def in_board_def)

lemma wf_game_prev [simp]: "wf_game (g\<lparr>prev_generation := x\<rparr>) = wf_game g"
  by (simp add: wf_game_def)

lemma step_eq:
  "wf_game g \<Longrightarrow>
     step g = Inr (g\<lparr>prev_generation := curr_generation g, curr_generation := next_grid g,
                    generations := generations g + 1\<rparr>)"
  using get_next_generation_eq [of "g\<lparr>prev_generation := curr_generation g\<rparr>"]
  by (simp add: step_def)

lemma next_grid_nth:
  "a < nat (rows g) \<Longrightarrow> b < nat (cols g) \<Longrightarrow>
     next_grid g ! a ! b = (if conway_alive g (int a, int b) then 1 else 0)"
  by (simp add: next_grid_def)

lemma live_next_grid:
  assumes "wf_game g"
  shows "live (g\<lparr>prev_generation := x, curr_generation := next_grid g, generations := n\<rparr>) =
         conway (rows g) (cols g) (live g)"
proof -
  have "p \<in> live (g\<lparr>prev_generation := x, curr_generation := next_grid g, generations := n\<rparr>) \<longleftrightarrow>
        p \<in> conway (rows g) (cols g) (live g)" for p
  proof (cases "in_board g p")
    case True
    then have "nat (fst p) < nat (rows g)" "nat (snd p) < nat (cols g)" by (auto simp: in_board_def)
    moreover have "cell_val g p = 0 \<or> cell_val g p = 1" using cell_val_01 [OF assms True] by simp
    ultimately show ?thesis using True
      by (auto simp: live_def cell_val_def next_grid_nth conway_def conway_alive_def in_board_def)
  qed (auto simp: live_def conway_def in_board_def)
  then show ?thesis by blast
qed

lemma wf_next_grid:
  assumes "wf_game g"
  shows "wf_game (g\<lparr>prev_generation := x, curr_generation := next_grid g, generations := n\<rparr>)"
  using assms by (auto simp: wf_game_def next_grid_def)

text \<open>C32: on a well-formed game (a rows by cols grid of 0/1 cells), step succeeds, and the set of live cells of the new generation is the abstract Conway successor of the old one: a live cell survives with 2 or 3 live neighbours, a dead cell is born with exactly 3, on the bounded board. step also saves the old generation in prev_generation and counts one generation.\<close>

theorem step_refines_conway:
  assumes "wf_game g"
  shows "\<exists>g'. step g = Inr g' \<and> live g' = conway (rows g) (cols g) (live g)
           \<and> prev_generation g' = curr_generation g \<and> generations g' = generations g + 1
           \<and> rows g' = rows g \<and> cols g' = cols g \<and> max_generations g' = max_generations g"
  using assms by (simp add: step_eq live_next_grid)

text \<open>C33: step keeps a game well formed: the new generation is again a rows by cols grid of 0/1 cells.\<close>

theorem step_preserves_wf: "wf_game g \<Longrightarrow> step g = Inr g' \<Longrightarrow> wf_game g'"
  by (auto simp: step_eq wf_next_grid)

lemma next_loop_error: "next_loop g copy ps = Inl e \<Longrightarrow> e = IndexError"
proof (induction g copy ps rule: next_loop.induct)
  case (2 g copy i j ps)
  have ce: "cell_at grid a b = Inl e' \<Longrightarrow> e' = IndexError" for grid a b e'
    by (auto simp: cell_at_def rbind_def py_index_def split: sum.splits if_splits)
  have ne: "get_neighbours g p = Inl e' \<Longrightarrow> e' = IndexError" for p e'
  proof -
    assume "get_neighbours g p = Inl e'"
    then have "Inl e' \<in> set (map (\<lambda>(i, j). cell_at (curr_generation g) i j) (neighbour_positions g p))"
      unfolding get_neighbours_def by (rule seq_results_Inl)
    then show ?thesis using ce by auto
  qed
  show ?case using 2 ce ne
    by (auto simp: rbind_def split: sum.splits if_splits)
qed simp

lemma next_loop_reaches_error:
  "p \<in> set ps \<Longrightarrow> cell_at (curr_generation g) (fst p) (snd p) = Inl e \<Longrightarrow> \<exists>e'. next_loop g copy ps = Inl e'"
proof (induction g copy ps rule: next_loop.induct)
  case (2 g copy i j ps)
  show ?case
  proof (cases "cell_at (curr_generation g) i j")
    case (Inr v)
    then have "p \<in> set ps" using 2 by auto
    then show ?thesis using 2 Inr by (auto simp: rbind_def split: sum.splits)
  qed simp
qed simp

lemma py_str_digit: "0 \<le> v \<Longrightarrow> v \<le> 9 \<Longrightarrow> py_str v = [digit_char (nat v)]"
  by (simp add: py_str_def show_base_last)

lemma int_of_digit_char: "d < 10 \<Longrightarrow> int_of_char (digit_char d) = Inr (int d)"
  by (simp add: int_of_char_def digit_char_def)

lemma py_split_lines:
  "\<forall>l \<in> set ls. CHR 0x0A \<notin> set l \<Longrightarrow> py_split (CHR 0x0A) (concat (map (\<lambda>l. l @ [CHR 0x0A]) ls)) = ls @ [[]]"
  by (induction ls) (simp_all add: py_split_append_sep)

lemma file_lines_lines:
  "\<forall>l \<in> set ls. CHR 0x0A \<notin> set l \<Longrightarrow> file_lines (concat (map (\<lambda>l. l @ [CHR 0x0A]) ls)) = map (\<lambda>l. l @ [CHR 0x0A]) ls"
  by (simp add: file_lines_def py_split_lines)

lemma concat_py_str_digits:
  "\<forall>v \<in> set row. 0 \<le> v \<and> v \<le> 9 \<Longrightarrow> concat (map py_str row) = map (\<lambda>v. digit_char (nat v)) row"
  by (induction row) (auto simp: py_str_digit)

lemma digit_not_newline: "d < 10 \<Longrightarrow> digit_char d \<noteq> CHR 0x0A"
  using digit_not_space [of d] by (auto simp: py_isspace_def)

lemma save_digits:
  assumes "\<forall>row \<in> set (curr_generation g). \<forall>v \<in> set row. 0 \<le> v \<and> v \<le> 9"
  shows "save g = concat (map (\<lambda>l. l @ [CHR 0x0A]) (map (map (\<lambda>v. digit_char (nat v))) (curr_generation g)))"
proof -
  have "concat (map py_str row) = map (\<lambda>v. digit_char (nat v)) row" if "row \<in> set (curr_generation g)" for row
    using assms that by (simp add: concat_py_str_digits)
  then show ?thesis unfolding save_def by (simp cong: map_cong)
qed

lemma parse_row_digits:
  assumes "\<forall>v \<in> set row. 0 \<le> v \<and> v \<le> 9"
  shows "parse_row (map (\<lambda>v. digit_char (nat v)) row @ [CHR 0x0A]) = Inr row"
proof -
  have "\<forall>c \<in> set (map (\<lambda>v. digit_char (nat v)) row). \<not> py_isspace c"
    using assms by (auto intro!: digit_not_space)
  then have "py_strip (map (\<lambda>v. digit_char (nat v)) row @ [CHR 0x0A]) = map (\<lambda>v. digit_char (nat v)) row"
    by (rule py_strip_newline)
  moreover have "seq_results (map int_of_char (map (\<lambda>v. digit_char (nat v)) row)) = Inr row"
  proof -
    have "\<forall>v \<in> set row. (int_of_char \<circ> (\<lambda>v. digit_char (nat v))) v = Inr v"
      using assms by (auto simp: int_of_digit_char)
    then show ?thesis using seq_results_map_Inr [of row "int_of_char \<circ> (\<lambda>v. digit_char (nat v))" id]
      by simp
  qed
  ultimately show ?thesis by (simp add: parse_row_def)
qed

text \<open>C35: from_file reads back what save writes: for a non-empty grid of single-digit cells, the loaded game has that grid, its size taken from the row count and the first row, no generation limit, and generation 1.\<close>

theorem from_file_save:
  assumes "curr_generation g \<noteq> []" "\<forall>row \<in> set (curr_generation g). \<forall>v \<in> set row. 0 \<le> v \<and> v \<le> 9"
  shows "from_file (save g) rnd =
           Inr ((game_init (int (length (curr_generation g)), int (length (hd (curr_generation g)))) rnd NoLimit)
                  \<lparr>curr_generation := curr_generation g\<rparr>)"
proof -
  let ?ls = "map (map (\<lambda>v. digit_char (nat v))) (curr_generation g)"
  have "digit_char (nat v) \<noteq> CHR 0x0A" if "v \<le> 9" for v :: int
    using that by (intro digit_not_newline) simp
  then have nl: "\<forall>l \<in> set ?ls. CHR 0x0A \<notin> set l" using assms(2) by fastforce
  have "seq_results (map parse_row (map (\<lambda>l. l @ [CHR 0x0A]) ?ls)) = Inr (curr_generation g)"
  proof -
    have "\<forall>row \<in> set (curr_generation g).
            (parse_row \<circ> (\<lambda>l. l @ [CHR 0x0A]) \<circ> map (\<lambda>v. digit_char (nat v))) row = Inr (id row)"
      using assms(2) parse_row_digits by simp
    from seq_results_map_Inr [OF this] show ?thesis by (simp add: comp_def)
  qed
  moreover have "py_index (curr_generation g) 0 = Inr (hd (curr_generation g))"
    using assms(1) py_index_nat [of 0 "curr_generation g"] by (simp add: hd_conv_nth)
  moreover have "file_lines (save g) = map (\<lambda>l. l @ [CHR 0x0A]) ?ls"
    by (simp only: save_digits [OF assms(2)] file_lines_lines [OF nl])
  ultimately show ?thesis by (simp only: from_file_def rbind_Inr)
qed

text \<open>C36: the console loop of life_console.py crashes with TypeError right after its first step: whenever the game is not at its generation limit and still changing, step succeeds and the call to checking raises; otherwise the loop ends at once with the game unchanged.\<close>

theorem console_run_type_error:
  assumes "wf_game g"
  shows "console_run (Suc n) g =
           (if \<not> is_max_generations_exceeded g \<and> is_changing g then Some (Inl TypeError) else Some (Inr g))"
  using assms by (simp add: step_eq life_checking_def)

text \<open>C37: a game whose grid has a row shorter than cols, as from_file builds from a file whose lines differ in length, fails at its first step with IndexError.\<close>

theorem step_ragged_index_error:
  assumes "length (curr_generation g) = nat (rows g)" "i < nat (rows g)"
          "length (curr_generation g ! i) < nat (cols g)"
  shows "step g = Inl IndexError"
proof -
  let ?g1 = "g\<lparr>prev_generation := curr_generation g\<rparr>"
  let ?p = "(int i, int (length (curr_generation g ! i)))"
  have "?p \<in> set (board ?g1)" using assms by (simp add: set_board in_board_def zless_nat_eq_int_zless)
  moreover have "cell_at (curr_generation ?g1) (fst ?p) (snd ?p) = Inl IndexError"
    using assms by (simp add: cell_at_def)
  ultimately obtain e where "get_next_generation ?g1 = Inl e"
    unfolding get_next_generation_def using next_loop_reaches_error by blast
  moreover then have "e = IndexError" unfolding get_next_generation_def by (rule next_loop_error)
  ultimately show ?thesis by (simp add: step_def)
qed

subsection \<open>Examples\<close>

lemma wf_glider: "wf_game glider_game"
  by code_simp

lemma step_glider:
  "step glider_game = Inr (glider_game\<lparr>prev_generation := glider,
     curr_generation := [[0, 0, 0, 0], [1, 0, 1, 0], [0, 1, 1, 0], [0, 1, 0, 0]], generations := 2\<rparr>)"
  by code_simp

theorem step_refines_conway_witness:
  "\<exists>g'. step glider_game = Inr g' \<and> live g' = conway 4 4 (live glider_game)"
proof -
  have "rows glider_game = 4" "cols glider_game = 4" by (simp_all add: glider_game_def game_init_def)
  then show ?thesis using step_refines_conway [OF wf_glider] by metis
qed

theorem step_preserves_wf_witness:
  "wf_game (glider_game\<lparr>prev_generation := glider,
     curr_generation := [[0, 0, 0, 0], [1, 0, 1, 0], [0, 1, 1, 0], [0, 1, 0, 0]], generations := 2\<rparr>)"
  by (rule step_preserves_wf [OF wf_glider step_glider])

theorem get_neighbours_bounds_witness:
  "get_neighbours glider_game (1, 1) = Inr [0, 1, 0, 0, 1, 1, 1, 1] \<and> card (nbrs (1, 1) \<inter> live glider_game) = 5"
proof -
  have n: "get_neighbours glider_game (1, 1) = Inr [0, 1, 0, 0, 1, 1, 1, 1]" by code_simp
  then show ?thesis using get_neighbours_bounds [OF wf_glider, of "(1, 1)"] by simp
qed

theorem from_file_save_witness:
  "from_file (save glider_game) [] = Inr ((game_init (4, 4) [] NoLimit)\<lparr>curr_generation := glider\<rparr>)"
  using from_file_save [of glider_game "[]"] by (simp add: glider_game_def game_init_def glider_def)

theorem console_run_type_error_witness: "console_run 3 glider_game = Some (Inl TypeError)"
proof -
  have "\<not> is_max_generations_exceeded glider_game \<and> is_changing glider_game" by code_simp
  then show ?thesis using console_run_type_error [OF wf_glider, of 2] by (simp add: numeral_3_eq_3)
qed

theorem step_ragged_index_error_witness:
  "from_file ''01\<newline>1\<newline>'' [] = Inr ragged_game \<and> step ragged_game = Inl IndexError"
proof -
  have f: "from_file ''01\<newline>1\<newline>'' [] = Inr ragged_game" by code_simp
  have "step ragged_game = Inl IndexError"
    using step_ragged_index_error [of ragged_game 1] by (simp add: ragged_game_def game_init_def)
  then show ?thesis using f by simp
qed

end
