(* ===== verification/Spec2Isabelle.thy ===== *)
theory Spec2Isabelle
  imports Porcelain Ciphers Sudoku Life
begin

text \<open>
  \<^bold>\<open>A verification library for the repository cs1024.\<close>

  The repository holds five programs: the Caesar and Vigenere ciphers
  (\<open>src/homework01\<close>), a sudoku solver (\<open>src/homework02/sudoku.py\<close>), the game of
  life with a console and a pygame front end (\<open>src/homework03\<close>), pyvcs, a small
  content-addressed version-control tool (\<open>src/homework04/pyvcs\<close>), and thin
  callers of the VK HTTP API (\<open>src/homework05\<close>).  pyvcs is the part the spec
  describes: writes flow from working-tree files through index entries and tree
  objects to commit objects, all kept in the object store.

  \<^bold>\<open>Theories and what they model.\<close>
  \<^item> \<open>Prelude\<close>: bytes as \<^typ>\<open>8 word list\<close>; Python's exceptions as the datatype
    \<open>py_error\<close> and a result as \<open>py_error + 'a\<close> (\<open>Inl\<close> is the exception);
    list indexing \<open>py_index\<close> (negative indices count from the end, else
    \<open>IndexError\<close>), \<open>rbind\<close> to sequence statements that may raise,
    \<open>seq_results\<close> for a loop that stops at the first exception; the built-ins the
    code calls (\<open>split\<close>, \<open>join\<close>, \<open>hex\<close>/\<open>fromhex\<close>, \<open>str\<close>/\<open>int\<close>/\<open>oct\<close> of
    numbers, big-endian \<open>struct\<close> fields) with their round-trip lemmas.
  \<^item> \<open>Objects\<close> (\<open>objects.py\<close>): the store \<open>.pyvcs/objects\<close> as an association list
    from (bucket, file) to bytes; SHA-1 is a parameter \<open>sha1 :: bytes \<Rightarrow> bytes\<close>,
    with the interface fact \<open>digest_len\<close> (twenty bytes) where a property needs
    it; zlib is the identity.  \<open>hash_object\<close>, \<open>read_object\<close>, \<open>resolve_object\<close>,
    \<open>find_object\<close>, \<open>read_tree\<close>, \<open>commit_parse\<close>, \<open>cat_file\<close> as the lines it
    prints, \<open>find_tree_files\<close> as the \<open>TypeError\<close> it raises.
  \<^item> \<open>Repo\<close> (\<open>repo.py\<close>): the repository record (object store, index file bytes,
    the text files \<open>HEAD\<close>/\<open>config\<close>/\<open>description\<close>, the working tree as an
    association list of paths) and \<open>repo_create\<close>.
  \<^item> \<open>Index\<close> (\<open>index.py\<close>): \<open>GitIndexEntry\<close> as a record, \<open>pack\<close>/\<open>unpack\<close>
    byte for byte, \<open>read_index\<close> with its alignment scan, \<open>write_index\<close>,
    \<open>ls_files\<close>, \<open>update_index\<close>.
  \<^item> \<open>Tree\<close> (\<open>tree.py\<close>): \<open>write_tree\<close> as a fuelled mutual recursion (\<open>None\<close> is
    running out of fuel, Python's \<open>RecursionError\<close>) and \<open>commit_tree\<close>, with the
    clock, the timezone and the environment as inputs.
  \<^item> \<open>Refs\<close> (\<open>refs.py\<close>): refs are text files of the repository record;
    \<open>write_text\<close>/\<open>read_text\<close> model \<open>open\<close> on them (the directories of
    \<open>.pyvcs\<close> raise \<open>IsADirectoryError\<close>, a missing parent
    \<open>FileNotFoundError\<close>); \<open>update_ref\<close>, \<open>symbolic_ref\<close>, \<open>get_ref\<close>,
    \<open>is_detached\<close>; \<open>ref_resolve\<close>/\<open>resolve_head\<close> are a fuelled mutual
    recursion (\<open>None\<close> is \<open>RecursionError\<close>).
  \<^item> \<open>Porcelain\<close> (\<open>porcelain.py\<close>): \<open>add\<close> (recursive over directories),
    \<open>commit\<close> composed of \<open>read_index\<close>, \<open>write_tree\<close>, \<open>resolve_head\<close> and
    \<open>commit_tree\<close>, and \<open>checkout\<close>: the removal of staged files
    (\<open>remove_files\<close>), the walk up the parent chain (\<open>checkout_chain\<close>) with
    its tree work list (\<open>checkout_trees\<close>), the no-clobber writes of blobs with
    \<open>chmod\<close> (\<open>materialize\<close>), and the removal of empty top-level directories.
    A command returns its result with the repository as it stands, so an
    exception keeps the changes made before it.
  \<^item> \<open>Ciphers\<close> (\<open>caesar.py\<close>, \<open>vigenere.py\<close>): text as Latin-1 characters, with
    Python's \<open>isupper\<close>/\<open>islower\<close> on that range; the dictionary set of
    \<open>caesar_breaker\<close> in a given iteration order.
  \<^item> \<open>Sudoku\<close> (\<open>sudoku.py\<close>): grids as lists of rows of strings, every access
    through \<open>py_index\<close>; \<open>group\<close> carries fuel (it loops for a size below 1);
    \<open>solve\<close>/\<open>try_values\<close> are a fuelled mutual recursion that threads the grid
    it mutates in place and returns it, with the iteration order of the candidate
    set as a parameter \<open>iter\<close> (Python's order depends on the hash seed);
    \<open>display\<close> as the lines it prints (\<open>py_center\<close> is \<open>str.center\<close>);
    \<open>generate_sudoku\<close> with the pairs \<open>random.randint\<close> draws as an input list.
  \<^item> \<open>Life\<close> (\<open>life.py\<close>, the loop of \<open>life_console.py\<close>): \<open>GameOfLife\<close> as a
    record; the random grid is an input; \<open>from_file\<close> and \<open>save\<close> work on the
    file's text; \<open>console_run\<close> is \<open>Console.run\<close> without drawing, with fuel.

  \<^bold>\<open>What is proved.\<close>  Objects: read after write, idempotent writes, the store
  invariant, short-name resolution and its errors, and that \<open>find_object\<close> never
  finds a stored object.  Index: \<open>read_index\<close> inverts \<open>write_index\<close> on entries the
  format carries, staging, re-staging duplicates a path, and a failed write
  truncates the file.  Tree: \<open>write_tree\<close> never returns when a staged file is
  missing, stores one sorted tree for a flat directory, and \<open>read_tree\<close> and
  \<open>commit_parse\<close> read back what is written (with the octal-mode and
  header-keyword anomalies as theorems).  Ciphers: round trips, equivalence of
  \<open>decrypt_caesar\<close> with the modular reference, totality and its limits, and the
  breaker's behaviour with and without a match.  Sudoku: \<open>group\<close> terminates
  exactly for a positive size; \<open>solve\<close> keeps the invariant \<open>good\<close> (shape,
  cells, no repeated digit in a unit), restores the grid when it fails, returns
  only valid solutions extending the puzzle, and returns once the fuel exceeds the
  number of empty cells, and finds a solution whenever one extends the puzzle
  (completeness); \<open>display\<close> prints twelve lines for a 9x9 grid;
  \<open>check_solution\<close> refines the abstract validity
  predicate; \<open>get_diagonal\<close> raises exactly below the anti-diagonal.  Life:
  \<open>step\<close> refines the abstract Conway rule on sets of live cells and keeps the
  shape invariant, neighbour counts are bounded by 8, \<open>from_file\<close> inverts
  \<open>save\<close>, the console loop crashes after its first step, and a ragged grid fails
  with \<open>IndexError\<close>.  Refs: a \<open>HEAD\<close> naming itself exhausts any fuel, and a
  detached \<open>HEAD\<close> makes \<open>resolve_head\<close> raise \<open>IsADirectoryError\<close>.
  Porcelain: \<open>commit\<close> changes no ref, the index or the working tree (the branch
  is never advanced), and \<open>checkout\<close> never touches a file that is not staged,
  whatever it returns.

  \<^bold>\<open>Fuel.\<close>  \<open>write_tree\<close> needs one unit per directory level, \<open>group\<close> one per
  group (\<open>length xs + 1\<close> suffices), \<open>solve\<close> one per empty cell plus one
  (\<open>solve_terminates\<close>), \<open>console_run\<close> one per generation, \<open>add\<close> one per
  directory level, \<open>checkout_chain\<close> one per commit of the parent chain and
  \<open>checkout_trees\<close> one per tree entry, \<open>ref_resolve\<close> one per symbolic link
  followed.  \<open>generate_sudoku\<close> consumes one draw per iteration: a finite list
  of draws stands for the random stream, and \<open>None\<close> is running out of it,
  which is the only outcome when \<open>solve\<close> found no grid (\<open>gen_loop_None\<close>):
  Python's loop then never ends.  Each fuelled
  function returns \<open>None\<close> only when it runs out, and the termination theorems
  state the fuel that is enough, or that no fuel is (\<open>write_tree_missing_file\<close>,
  \<open>group_diverges\<close>).

  \<^bold>\<open>Not modelled.\<close>  zlib (the identity) and SHA-1 (a parameter);
  \<open>repo_find\<close>'s upward search (the git directory is given); the curses and pygame drawing and the GUI's event loop, which are I/O driven by the terminal
  and by mouse and keyboard events; the VK API callers (network I/O); UTF-8
  validation (text is bytes or Latin-1 characters); the \<open>__main__\<close> blocks.
\<close>

end
